theory Spec2Isabelle
  imports Main
begin

section \<open>Traffic recorder (stores/traffic.ts)\<close>

text \<open>
  The Pinia store \<^verbatim>\<open>useTrafficStore\<close> keeps a list of entries and a pause flag.
  \<^verbatim>\<open>crypto.randomUUID()\<close> and \<^verbatim>\<open>Date.now()\<close> are inputs of the environment: the
  model of \<^verbatim>\<open>addEntry\<close> takes the generated id and the clock reading as arguments.
  The payload is any JSON value; the model is polymorphic in it.
\<close>

datatype TrafficDirection = DirIn | DirOut

datatype TrafficType = TRequest | TResponse | TNotification

datatype wire_id = NumId nat | StrId string | OtherId



datatype TrafficFilter = FAll | FRequests | FResponses | FNotifications















section \<open>File reads for the agent (AcpClientBridge.readTextFile)\<close>

text \<open>
  A request parameter of type \<^verbatim>\<open>number | null | undefined\<close>. The protocol declares
  \<^verbatim>\<open>line\<close> and \<^verbatim>\<open>limit\<close> as unsigned integers; the bridge does not validate them,
  so the model keeps integers and gives \<^verbatim>\<open>Array.prototype.slice\<close> its meaning on
  negative indices.
\<close>

datatype js_num = Undefined | Null | Num int

record ReadTextFileRequest =
  path :: string
  line :: js_num
  limit :: js_num

definition newline :: char where
  "newline = CHR 0x0A"

text \<open>
  \<^verbatim>\<open>content.split('\n')\<close>: the pieces between newline characters; the empty string
  gives one empty piece. The recursive call never returns the empty list (lemma
  \<open>split_nl_nonempty\<close>), so the last case is not reached.
\<close>

fun split_nl :: "string \<Rightarrow> string list" where
  "split_nl [] = [[]]"
| "split_nl (c # cs) =
     (if c = newline then [] # split_nl cs
      else (case split_nl cs of l # ls \<Rightarrow> (c # l) # ls | [] \<Rightarrow> [[c]]))"

text \<open>\<^verbatim>\<open>lines.join('\n')\<close>\<close>

fun join_nl :: "string list \<Rightarrow> string" where
  "join_nl [] = []"
| "join_nl [l] = l"
| "join_nl (l # ls) = l @ newline # join_nl ls"

text \<open>
  \<^verbatim>\<open>xs.slice(start, end)\<close> on integers: a negative index counts from the end, both
  are clamped to \<open>0..length\<close>, and an end before the start gives the empty list.
\<close>

definition js_slice :: "int \<Rightarrow> int \<Rightarrow> 'a list \<Rightarrow> 'a list" where
  "js_slice start fin xs =
     (let len = int (length xs);
          k = (if start < 0 then max (len + start) 0 else min start len);
          final = (if fin < 0 then max (len + fin) 0 else min fin len)
      in take (nat (final - k)) (drop (nat k) xs))"

text \<open>
  \<^verbatim>\<open>tauriReadTextFile\<close> is the file-access collaborator: a function from a path to
  the text or to the error it throws. readTextFile rethrows the error.
\<close>

definition readTextFile :: "(string \<Rightarrow> string + string) \<Rightarrow> ReadTextFileRequest \<Rightarrow> string + string" where
  "readTextFile fs params =
     (case fs (path params) of
        Inl e \<Rightarrow> Inl e
      | Inr content \<Rightarrow>
          if line params \<noteq> Undefined \<or> limit params \<noteq> Undefined
          then
            let lines = split_nl content;
                startLine = (case line params of Num n \<Rightarrow> if n \<noteq> 0 then n - 1 else 0 | _ \<Rightarrow> 0);
                endLine = (case limit params of
                             Num n \<Rightarrow> if n \<noteq> 0 then startLine + n else int (length lines)
                           | _ \<Rightarrow> int (length lines))
            in Inr (join_nl (js_slice startLine endLine lines))
          else Inr content)"

text \<open>The claim's reading of the two parameters, for the statement of the theorem.\<close>

fun absent_or_nat :: "js_num \<Rightarrow> bool" where
  "absent_or_nat (Num n) = (0 \<le> n)"
| "absent_or_nat _ = True"

fun first_index :: "js_num \<Rightarrow> nat" where
  "first_index (Num n) = nat n - 1"
| "first_index _ = 0"

fun at_most :: "js_num \<Rightarrow> 'a list \<Rightarrow> 'a list" where
  "at_most (Num n) xs = (if n = 0 then xs else take (nat n) xs)"
| "at_most _ xs = xs"

section \<open>Session store: data (lib/types.ts, stores/session.ts)\<close>

text \<open>
  The records follow \<^verbatim>\<open>lib/types.ts\<close>. Field names that occur in more than one
  interface carry a prefix. An optional field is an \<open>option\<close>; \<^verbatim>\<open>Date.now()\<close>
  is a natural number of milliseconds.
\<close>

datatype ToolStatus = Pending | InProgress | Completed | Failed

record ToolCallInfo =
  toolCallId :: string
  tc_title :: string
  kind :: string
  status :: ToolStatus
  locations :: "string list option"

datatype Role = User | Assistant | System

text \<open>
  \<^verbatim>\<open>ChatMessage\<close>, with the \<^verbatim>\<open>thought\<close> field that handleSessionUpdate adds to
  assistant messages.
\<close>

record ChatMessage =
  msg_id :: string
  role :: Role
  content :: string
  msg_timestamp :: nat
  thought :: "string option"
  msg_toolCalls :: "ToolCallInfo list option"

record SavedSession =
  saved_id :: string
  agentName :: string
  sessionId :: string
  session_title :: string
  lastUpdated :: nat
  cwd :: string
  supportsLoadSession :: "bool option"

record SessionMode =
  mode_id :: string
  mode_name :: string
  mode_description :: "string option"

record ModelInfo =
  modelId :: string
  model_name :: string
  model_description :: "string option"

record SlashCommand =
  cmd_name :: string
  cmd_description :: string
  hint :: "string option"

record AuthMethod =
  auth_id :: string
  auth_name :: string

text \<open>
  What the store asks of its collaborators, in the order it asks: the ghost field
  \<open>trace\<close> of the store records it, so that a theorem can say which requests were
  sent. \<open>Request m\<close> is a call of the bridge method that sends the request \<open>m\<close>;
  \<open>Disconnect a\<close> is \<^verbatim>\<open>acpClient.disconnect()\<close> on the bridge of agent \<open>a\<close>
  (it removes the message listener and kills the agent).
\<close>

datatype Action =
    SpawnAgent string
  | ListenStderr
  | KillAgent string
  | Connect string
  | Disconnect string
  | Request string
  | PromptForAuthMethod
  | SaveSessions
  | TrackEvent string bool

text \<open>
  The state of \<^verbatim>\<open>useSessionStore\<close>: its refs and the module-level variables
  \<^verbatim>\<open>connectionAborted\<close>, \<^verbatim>\<open>acpClient\<close> (the agent id of the bridge, when there is
  one) and \<^verbatim>\<open>authMethodResolver\<close> (whether a resolver is stored). The startup timer,
  the stderr log and the mirror of the bridge's pending permission request are display
  state that no function modelled here reads; they are left out. Three fields belong
  to the runtime and to the observer:
  \<^item> \<open>authChoice\<close>: the value the promise of promptForAuthMethod was resolved with
    (\<open>None\<close> while it is unresolved, \<open>Some None\<close> for \<^verbatim>\<open>null\<close>);
  \<^item> \<open>cancelPending\<close>: cancelConnection is suspended at its
    \<^verbatim>\<open>await acpClient.disconnect()\<close>;
  \<^item> \<open>trace\<close>: the calls of collaborators made so far.
\<close>

record Store =
  savedSessions :: "SavedSession list"
  currentSession :: "SavedSession option"
  messages :: "ChatMessage list"
  toolCalls :: "string \<rightharpoonup> ToolCallInfo"
  isConnected :: bool
  isLoading :: bool
  isConnecting :: bool
  error :: "string option"
  pendingAuthMethods :: "AuthMethod list"
  pendingAuthAgentName :: string
  authMethodResolver :: bool
  availableModes :: "SessionMode list"
  currentModeId :: string
  availableCommands :: "SlashCommand list"
  availableModels :: "ModelInfo list"
  currentModelId :: string
  connectionAborted :: bool
  startupPhase :: string
  acpClient :: "string option"
  authChoice :: "string option option"
  cancelPending :: bool
  trace :: "Action list"

definition initialStore :: Store where
  "initialStore =
     \<lparr>savedSessions = [], currentSession = None, messages = [], toolCalls = Map.empty,
      isConnected = False, isLoading = False, isConnecting = False, error = None,
      pendingAuthMethods = [], pendingAuthAgentName = [], authMethodResolver = False,
      availableModes = [], currentModeId = [], availableCommands = [],
      availableModels = [], currentModelId = [], connectionAborted = False,
      startupPhase = ''starting'', acpClient = None, authChoice = None, cancelPending = False,
      trace = []\<rparr>"

section \<open>Conversation assembly (handleSessionUpdate)\<close>

text \<open>
  \<^verbatim>\<open>update.content\<close>: a text block, or a block of another type (image, audio,
  resource), of which the handler uses nothing.
\<close>

datatype ContentBlock = Text string | OtherContent

text \<open>
  \<^verbatim>\<open>notification.update\<close>, by its \<^verbatim>\<open>sessionUpdate\<close> tag. Optional fields are
  options: \<open>None\<close> is an absent or null field.
  \<^item> \<open>ToolCall id title kind status locations\<close>
  \<^item> \<open>ToolCallUpdate id status title\<close>
  \<^item> \<open>CurrentModeUpdate modeId\<close>
  \<^item> \<open>AvailableCommandsUpdate commands\<close> (\<open>None\<close>: the field is absent or no array)
  \<^item> \<open>OtherUpdate\<close>: any other tag.
\<close>

datatype SessionUpdate =
    UserMessageChunk ContentBlock
  | AgentMessageChunk ContentBlock
  | AgentThoughtChunk ContentBlock
  | ToolCall string string "string option" "ToolStatus option" "string list option"
  | ToolCallUpdate string "ToolStatus option" "string option"
  | CurrentModeUpdate "string option"
  | AvailableCommandsUpdate "SlashCommand list option"
  | OtherUpdate

text \<open>\<^verbatim>\<open>update.content.type === 'text' ? update.content.text : ''\<close>\<close>

fun textOf :: "ContentBlock \<Rightarrow> string" where
  "textOf (Text t) = t"
| "textOf OtherContent = []"

text \<open>
  \<^verbatim>\<open>s || d\<close> on an optional string: the empty string is falsy, as an absent one.
\<close>

fun orElse :: "string option \<Rightarrow> string \<Rightarrow> string" where
  "orElse None d = d"
| "orElse (Some s) d = (if s = [] then d else s)"

text \<open>
  \<^verbatim>\<open>messages.value[messages.value.length - 1]\<close>: \<^verbatim>\<open>undefined\<close> on the empty list.
\<close>

definition lastMessage :: "ChatMessage list \<Rightarrow> ChatMessage option" where
  "lastMessage ms = (if ms = [] then None else Some (last ms))"

text \<open>An assignment to a field of that last element, which the list holds by reference.\<close>

definition setLast :: "ChatMessage \<Rightarrow> ChatMessage list \<Rightarrow> ChatMessage list" where
  "setLast m ms = butlast ms @ [m]"

text \<open>
  \<^verbatim>\<open>if (update.status) tc.status = update.status; if (update.title) tc.title = update.title\<close>
\<close>

definition applyUpdate :: "ToolStatus option \<Rightarrow> string option \<Rightarrow> ToolCallInfo \<Rightarrow> ToolCallInfo" where
  "applyUpdate st ti tc =
     (let tc1 = (case st of Some s \<Rightarrow> tc\<lparr>status := s\<rparr> | None \<Rightarrow> tc)
      in case ti of
           Some t \<Rightarrow> if t \<noteq> [] then tc1\<lparr>tc_title := t\<rparr> else tc1
         | None \<Rightarrow> tc1)"

text \<open>
  \<^verbatim>\<open>const tc = xs.find(p); if (tc) { ... }\<close>: the first element that satisfies \<open>p\<close> is
  changed in place, the others stay.
\<close>

fun updateFound :: "('a \<Rightarrow> bool) \<Rightarrow> ('a \<Rightarrow> 'a) \<Rightarrow> 'a list \<Rightarrow> 'a list" where
  "updateFound p f [] = []"
| "updateFound p f (x # xs) = (if p x then f x # xs else x # updateFound p f xs)"

text \<open>The body of the loop \<^verbatim>\<open>for (const msg of messages.value)\<close> of a tool-call update.\<close>

definition updateInMessage :: "string \<Rightarrow> ToolStatus option \<Rightarrow> string option \<Rightarrow> ChatMessage \<Rightarrow> ChatMessage" where
  "updateInMessage tid st ti msg =
     (case msg_toolCalls msg of
        None \<Rightarrow> msg
      | Some tcs \<Rightarrow>
          msg\<lparr>msg_toolCalls := Some (updateFound (\<lambda>t. toolCallId t = tid) (applyUpdate st ti) tcs)\<rparr>)"

text \<open>
  handleSessionUpdate. A new message takes its id from \<^verbatim>\<open>crypto.randomUUID()\<close> and
  its timestamp from \<^verbatim>\<open>Date.now()\<close>: the arguments \<open>uuid\<close> and \<open>now\<close>.
\<close>

fun handleSessionUpdate :: "string \<Rightarrow> nat \<Rightarrow> SessionUpdate \<Rightarrow> Store \<Rightarrow> Store" where
  "handleSessionUpdate uuid now (UserMessageChunk c) s =
     (case lastMessage (messages s) of
        Some lastUserMsg \<Rightarrow>
          if role lastUserMsg = User
          then (case c of
                  Text t \<Rightarrow> s\<lparr>messages := setLast (lastUserMsg\<lparr>content := content lastUserMsg @ t\<rparr>) (messages s)\<rparr>
                | OtherContent \<Rightarrow> s)
          else s\<lparr>messages := messages s @
                 [\<lparr>msg_id = uuid, role = User, content = textOf c, msg_timestamp = now,
                   thought = None, msg_toolCalls = None\<rparr>]\<rparr>
      | None \<Rightarrow>
          s\<lparr>messages := messages s @
                 [\<lparr>msg_id = uuid, role = User, content = textOf c, msg_timestamp = now,
                   thought = None, msg_toolCalls = None\<rparr>]\<rparr>)"
| "handleSessionUpdate uuid now (AgentMessageChunk c) s =
     (case lastMessage (messages s) of
        Some lastMsg \<Rightarrow>
          if role lastMsg = Assistant
          then (case c of
                  Text t \<Rightarrow> s\<lparr>messages := setLast (lastMsg\<lparr>content := content lastMsg @ t\<rparr>) (messages s)\<rparr>
                | OtherContent \<Rightarrow> s)
          else s\<lparr>messages := messages s @
                 [\<lparr>msg_id = uuid, role = Assistant, content = textOf c, msg_timestamp = now,
                   thought = None, msg_toolCalls = Some []\<rparr>]\<rparr>
      | None \<Rightarrow>
          s\<lparr>messages := messages s @
                 [\<lparr>msg_id = uuid, role = Assistant, content = textOf c, msg_timestamp = now,
                   thought = None, msg_toolCalls = Some []\<rparr>]\<rparr>)"
| "handleSessionUpdate uuid now (AgentThoughtChunk c) s =
     (case lastMessage (messages s) of
        Some lastAssistantMsg \<Rightarrow>
          if role lastAssistantMsg = Assistant
          then (case c of
                  Text t \<Rightarrow>
                    s\<lparr>messages := setLast
                        (lastAssistantMsg\<lparr>thought := Some (orElse (thought lastAssistantMsg) [] @ t)\<rparr>)
                        (messages s)\<rparr>
                | OtherContent \<Rightarrow> s)
          else s\<lparr>messages := messages s @
                 [\<lparr>msg_id = uuid, role = Assistant, content = [], msg_timestamp = now,
                   thought = Some (textOf c), msg_toolCalls = Some []\<rparr>]\<rparr>
      | None \<Rightarrow>
          s\<lparr>messages := messages s @
                 [\<lparr>msg_id = uuid, role = Assistant, content = [], msg_timestamp = now,
                   thought = Some (textOf c), msg_toolCalls = Some []\<rparr>]\<rparr>)"
| "handleSessionUpdate uuid now (ToolCall tid ti kd st locs) s =
     (let tc = \<lparr>toolCallId = tid, tc_title = ti, kind = orElse kd ''other'',
                status = (case st of Some x \<Rightarrow> x | None \<Rightarrow> Pending), locations = locs\<rparr>;
          s1 = (case lastMessage (messages s) of
                  Some currentAssistantMsg \<Rightarrow>
                    if role currentAssistantMsg = Assistant
                    then s\<lparr>messages := setLast
                           (currentAssistantMsg\<lparr>msg_toolCalls :=
                              Some ((case msg_toolCalls currentAssistantMsg of
                                       None \<Rightarrow> [] | Some tcs \<Rightarrow> tcs) @ [tc])\<rparr>)
                           (messages s)\<rparr>
                    else s
                | None \<Rightarrow> s)
      in s1\<lparr>toolCalls := (toolCalls s1)(tid \<mapsto> tc)\<rparr>)"
| "handleSessionUpdate uuid now (ToolCallUpdate tid st ti) s =
     (case toolCalls s tid of
        None \<Rightarrow> s
      | Some existing \<Rightarrow>
          s\<lparr>toolCalls := (toolCalls s)(tid \<mapsto> applyUpdate st ti existing),
            messages := map (updateInMessage tid st ti) (messages s)\<rparr>)"
| "handleSessionUpdate uuid now (CurrentModeUpdate m) s =
     (case m of
        Some modeId \<Rightarrow> if modeId \<noteq> [] then s\<lparr>currentModeId := modeId\<rparr> else s
      | None \<Rightarrow> s)"
| "handleSessionUpdate uuid now (AvailableCommandsUpdate cs) s =
     (case cs of Some cmds \<Rightarrow> s\<lparr>availableCommands := cmds\<rparr> | None \<Rightarrow> s)"
| "handleSessionUpdate uuid now OtherUpdate s = s"

text \<open>
  Notifications are handled one at a time, in the order of arrival; each comes with the
  id and the clock reading a new message would take.
\<close>

fun handleSessionUpdates :: "(string \<times> nat \<times> SessionUpdate) list \<Rightarrow> Store \<Rightarrow> Store" where
  "handleSessionUpdates [] s = s"
| "handleSessionUpdates ((uuid, now, u) # us) s = handleSessionUpdates us (handleSessionUpdate uuid now u s)"

text \<open>
  The text-chunk notification of a role, for the statements about chunks: there is one
  for user messages and one for assistant messages.
\<close>

definition textChunk :: "Role \<Rightarrow> string \<Rightarrow> SessionUpdate" where
  "textChunk r t = (if r = User then UserMessageChunk (Text t) else AgentMessageChunk (Text t))"

definition textChunks :: "Role \<Rightarrow> (string \<times> nat \<times> string) list \<Rightarrow> (string \<times> nat \<times> SessionUpdate) list" where
  "textChunks r xs = map (\<lambda>(uuid, now, t). (uuid, now, textChunk r t)) xs"

text \<open>The message a chunk of role \<open>r\<close> creates when it cannot be appended.\<close>

definition chunkMessage :: "string \<Rightarrow> nat \<Rightarrow> Role \<Rightarrow> string \<Rightarrow> ChatMessage" where
  "chunkMessage uuid now r t =
     \<lparr>msg_id = uuid, role = r, content = t, msg_timestamp = now, thought = None,
      msg_toolCalls = (if r = Assistant then Some [] else None)\<rparr>"

text \<open>The transcript after text \<open>t\<close> of role \<open>r\<close> arrived, by the rule of the claim.\<close>

definition appendOrCreate :: "string \<Rightarrow> nat \<Rightarrow> Role \<Rightarrow> string \<Rightarrow> ChatMessage list \<Rightarrow> ChatMessage list" where
  "appendOrCreate uuid now r t ms =
     (if ms \<noteq> [] \<and> role (last ms) = r
      then butlast ms @ [(last ms)\<lparr>content := content (last ms) @ t\<rparr>]
      else ms @ [chunkMessage uuid now r t])"

text \<open>
  A transcript in which the agent announced one tool call twice under the assistant's
  message: a state the handler reaches from the empty store.
\<close>

definition announcedTwice :: Store where
  "announcedTwice =
     handleSessionUpdates
       [(''m1'', 1, AgentMessageChunk (Text ''Editing'')),
        (''m2'', 2, ToolCall ''call_1'' ''Edit a.txt'' None None None),
        (''m3'', 3, ToolCall ''call_1'' ''Edit a.txt'' None None None)]
       initialStore"

section \<open>RPC bridge (lib/acp-bridge.ts)\<close>

text \<open>
  The bridge hands results and parameters through without reading them: a JSON value
  is its text. A \<open>wire_id\<close> is the \<^verbatim>\<open>id\<close> of a frame as the agent wrote it:
  \<open>NumId n\<close> a natural number, \<open>StrId\<close> a string, \<open>OtherId\<close> anything else
  (null, a negative or fractional number). The keys of the bridge's own maps are the
  natural numbers its counter produced, so only \<open>NumId\<close> can find an entry.
\<close>

type_synonym json = string

fun lookupId :: "(nat \<rightharpoonup> 'a) \<Rightarrow> wire_id \<Rightarrow> 'a option" where
  "lookupId m (NumId n) = m n"
| "lookupId m _ = None"

fun deleteId :: "(nat \<rightharpoonup> 'a) \<Rightarrow> wire_id \<Rightarrow> (nat \<rightharpoonup> 'a)" where
  "deleteId m (NumId n) = m(n := None)"
| "deleteId m _ = m"

text \<open>The error object of a response; \<^verbatim>\<open>message\<close> may be missing.\<close>

record WireError =
  err_code :: int
  err_message :: "string option"

text \<open>\<^verbatim>\<open>new Error(parsed.error.message || 'Unknown error')\<close>: the code is not kept.\<close>

definition rejectionMessage :: "WireError \<Rightarrow> string" where
  "rejectionMessage e = orElse (err_message e) ''Unknown error''"

subsection \<open>Requests of the agent\<close>

record PermissionOption =
  opt_kind :: string
  opt_name :: string
  optionId :: string

record ToolCallParam =
  p_toolCallId :: string
  p_title :: "string option"
  p_kind :: "string option"
  p_status :: "ToolStatus option"
  p_locations :: "string list option"

record RequestPermissionRequest =
  rp_sessionId :: string
  rp_toolCall :: ToolCallParam
  rp_options :: "PermissionOption list"

text \<open>\<^verbatim>\<open>PermissionRequest\<close> of lib/types.ts, the value of \<^verbatim>\<open>pendingPermissionRequest\<close>.\<close>

record PermissionRequest =
  pr_sessionId :: string
  pr_toolCall :: ToolCallInfo
  pr_options :: "PermissionOption list"

text \<open>
  The parameters of an inbound request, as the handler of its method reads them.
  \<open>BadParams\<close> stands for parameters on which the handler's property accesses throw a
  TypeError (no object, or no \<^verbatim>\<open>toolCall\<close> or \<^verbatim>\<open>options\<close>); a handler that is given
  the parameters of another method is taken to throw likewise.
\<close>

datatype Params =
    ReadParams ReadTextFileRequest
  | WriteParams string string
  | PermissionParams RequestPermissionRequest
  | BadParams

definition typeErrorMessage :: string where
  "typeErrorMessage = ''Cannot read properties of undefined''"

text \<open>The file-access collaborator: what reading and writing a path give or throw.\<close>

record FileAccess =
  readText :: "string \<Rightarrow> string + string"
  writeText :: "string \<Rightarrow> string \<Rightarrow> string + unit"

text \<open>What a handler returns: the \<^verbatim>\<open>result\<close> of the response.\<close>

datatype HandlerResult =
    ReadResult string
  | WriteResult
  | PermissionSelected string
  | PermissionCancelled

text \<open>
  A frame handed to \<^verbatim>\<open>sendToAgent\<close>: a request of the bridge, a response to the agent
  with a result or with an error (code and message), or a notification.
\<close>

datatype OutFrame =
    RequestFrame nat string json
  | ResultFrame wire_id HandlerResult
  | ErrorFrame wire_id int string
  | NotificationFrame string json

text \<open>
  \<^verbatim>\<open>JSON.parse(message)\<close> when it gives an object: which of the keys \<^verbatim>\<open>id\<close> and
  \<^verbatim>\<open>method\<close> it has, its parameters, its result, and its error when that is truthy.
\<close>

record Parsed =
  p_id :: "wire_id option"
  p_method :: "string option"
  p_params :: Params
  p_update :: json
  p_result :: "json option"
  p_error :: "WireError option"

subsection \<open>State\<close>

text \<open>
  A call of \<^verbatim>\<open>resolve\<close> or \<^verbatim>\<open>reject\<close> of the promise that sendRequest returned for a
  request: the request, the callback that made the call (the response handler, the
  timeout, the \<^verbatim>\<open>catch\<close> of the send) and the value passed.
\<close>

datatype Site = ByResponse | ByTimeout | BySendFailure

datatype Settlement = Resolved "json option" | Rejected string

record Invocation =
  promise :: nat
  site :: Site
  outcome :: Settlement

text \<open>
  The fields of \<^verbatim>\<open>AcpClientBridge\<close>, and with them what the JavaScript runtime holds
  for it and what an observer sees:
  \<^item> \<open>messageResolvers\<close>, \<open>messageRejecters\<close>: the closure stored under a key calls
    \<^verbatim>\<open>resolve\<close> (\<^verbatim>\<open>reject\<close>) of one promise; the map gives that promise's request id;
  \<^item> \<open>permissionResolver\<close>: the stored \<^verbatim>\<open>resolve\<close> continues the handleRequest call
    of one inbound request; the field gives that request's id;
  \<^item> \<open>clock\<close> (milliseconds), \<open>timers\<close> (deadline, request id, method of every
    \<^verbatim>\<open>setTimeout\<close> not yet run) and \<open>sends\<close> (the requests whose \<^verbatim>\<open>sendToAgent\<close>
    promise has not settled): the runtime;
  \<^item> \<open>settled\<close>, \<open>sent\<close>, \<open>notified\<close>: the calls of resolve and reject, the frames
    handed to \<^verbatim>\<open>sendToAgent\<close> and the updates handed to \<^verbatim>\<open>onSessionUpdate\<close>, in
    order.
  The calls of the traffic store (\<^verbatim>\<open>store.addEntry\<close>) write to that store only; it is
  modelled on its own above.
\<close>

record Bridge =
  messageResolvers :: "nat \<rightharpoonup> nat"
  messageRejecters :: "nat \<rightharpoonup> nat"
  pendingMethods :: "nat \<rightharpoonup> string"
  nextRequestId :: nat
  pendingPermissionRequest :: "PermissionRequest option"
  permissionResolver :: "wire_id option"
  onSessionUpdate :: bool
  clock :: nat
  timers :: "(nat \<times> nat \<times> string) list"
  sends :: "nat list"
  settled :: "Invocation list"
  sent :: "OutFrame list"
  notified :: "json list"

definition initialBridge :: Bridge where
  "initialBridge =
     \<lparr>messageResolvers = Map.empty, messageRejecters = Map.empty, pendingMethods = Map.empty,
      nextRequestId = 0, pendingPermissionRequest = None, permissionResolver = None,
      onSessionUpdate = True, clock = 0, timers = [], sends = [], settled = [], sent = [],
      notified = []\<rparr>"

definition REQUEST_TIMEOUT :: nat where
  "REQUEST_TIMEOUT = 60000"

subsection \<open>Outbound requests\<close>

definition invoke :: "nat \<Rightarrow> Site \<Rightarrow> Settlement \<Rightarrow> Bridge \<Rightarrow> Bridge" where
  "invoke p w v s = s\<lparr>settled := settled s @ [\<lparr>promise = p, site = w, outcome = v\<rparr>]\<rparr>"

text \<open>
  sendRequest up to its return: the id is taken, the request frame is handed to
  \<^verbatim>\<open>sendToAgent\<close>, the two continuations are stored and the timer is set.
\<close>

definition sendRequest :: "string \<Rightarrow> json option \<Rightarrow> Bridge \<Rightarrow> Bridge" where
  "sendRequest method params s =
     (let rid = nextRequestId s in
      s\<lparr>nextRequestId := rid + 1,
        pendingMethods := (pendingMethods s)(rid \<mapsto> method),
        messageResolvers := (messageResolvers s)(rid \<mapsto> rid),
        messageRejecters := (messageRejecters s)(rid \<mapsto> rid),
        sent := sent s @ [RequestFrame rid method (orElse params ''{}'')],
        sends := sends s @ [rid],
        timers := timers s @ [(clock s + REQUEST_TIMEOUT, rid, method)]\<rparr>)"

text \<open>
  The \<^verbatim>\<open>sendToAgent\<close> promise of request \<open>rid\<close> settles. When it rejects with \<open>e\<close>,
  the \<^verbatim>\<open>catch\<close> callback deletes the three entries and calls \<^verbatim>\<open>reject(e)\<close>.
\<close>

definition sendSettled :: "nat \<Rightarrow> string option \<Rightarrow> Bridge \<Rightarrow> Bridge" where
  "sendSettled rid err s =
     (if rid \<in> set (sends s)
      then
        let s1 = s\<lparr>sends := removeAll rid (sends s)\<rparr> in
        case err of
          None \<Rightarrow> s1
        | Some e \<Rightarrow>
            invoke rid BySendFailure (Rejected e)
              (s1\<lparr>messageResolvers := (messageResolvers s1)(rid := None),
                  messageRejecters := (messageRejecters s1)(rid := None),
                  pendingMethods := (pendingMethods s1)(rid := None)\<rparr>)
      else s)"

text \<open>The callback of \<^verbatim>\<open>setTimeout\<close> for request \<open>rid\<close> of method \<open>method\<close>.\<close>

definition timeoutFired :: "(nat \<times> nat \<times> string) \<Rightarrow> Bridge \<Rightarrow> Bridge" where
  "timeoutFired t s =
     (case t of (deadline, rid, method) \<Rightarrow>
        if messageResolvers s rid \<noteq> None
        then invoke rid ByTimeout (Rejected (''Request timeout: '' @ method))
               (s\<lparr>messageResolvers := (messageResolvers s)(rid := None),
                  messageRejecters := (messageRejecters s)(rid := None),
                  pendingMethods := (pendingMethods s)(rid := None)\<rparr>)
        else s)"

text \<open>
  \<open>d\<close> milliseconds pass: the timers whose deadline is reached run, in the order they
  were set, and leave the runtime.
\<close>

definition due :: "nat \<Rightarrow> (nat \<times> nat \<times> string) \<Rightarrow> bool" where
  "due t x = (fst x \<le> t)"

definition elapse :: "nat \<Rightarrow> Bridge \<Rightarrow> Bridge" where
  "elapse d s =
     (let t = clock s + d in
      fold timeoutFired (filter (due t) (timers s))
        (s\<lparr>clock := t, timers := filter (\<lambda>x. \<not> due t x) (timers s)\<rparr>))"

subsection \<open>Inbound requests\<close>

definition respond :: "wire_id \<Rightarrow> (int \<times> string) + HandlerResult \<Rightarrow> Bridge \<Rightarrow> Bridge" where
  "respond i r s =
     (case r of
        Inl (c, m) \<Rightarrow> s\<lparr>sent := sent s @ [ErrorFrame i c m]\<rparr>
      | Inr v \<Rightarrow> s\<lparr>sent := sent s @ [ResultFrame i v]\<rparr>)"

definition writeTextFile :: "FileAccess \<Rightarrow> string \<Rightarrow> string \<Rightarrow> string + HandlerResult" where
  "writeTextFile fs p c = (case writeText fs p c of Inl e \<Rightarrow> Inl e | Inr _ \<Rightarrow> Inr WriteResult)"

text \<open>The object requestPermission stores in \<^verbatim>\<open>pendingPermissionRequest\<close>.\<close>

definition localPermissionRequest :: "RequestPermissionRequest \<Rightarrow> PermissionRequest" where
  "localPermissionRequest params =
     \<lparr>pr_sessionId = rp_sessionId params,
      pr_toolCall =
        \<lparr>toolCallId = p_toolCallId (rp_toolCall params),
         tc_title = (case p_title (rp_toolCall params) of None \<Rightarrow> [] | Some t \<Rightarrow> t),
         kind = (case p_kind (rp_toolCall params) of None \<Rightarrow> ''other'' | Some k \<Rightarrow> k),
         status = (case p_status (rp_toolCall params) of None \<Rightarrow> Pending | Some x \<Rightarrow> x),
         locations = p_locations (rp_toolCall params)\<rparr>,
      pr_options = rp_options params\<rparr>"

text \<open>
  handleRequest. The file handlers run to their end and the response is sent; the
  permission handler stores the request and the continuation and sends nothing: the
  response is sent by resolvePermission or cancelPermission. A handler that throws
  gives the error \<open>-32603\<close>, an unknown method the error \<open>-32601\<close>.
\<close>

definition handleRequest :: "FileAccess \<Rightarrow> wire_id \<Rightarrow> string \<Rightarrow> Params \<Rightarrow> Bridge \<Rightarrow> Bridge" where
  "handleRequest fs i method params s =
     (if method = ''fs/read_text_file'' then
        (case params of
           ReadParams r \<Rightarrow>
             (case readTextFile (readText fs) r of
                Inr c \<Rightarrow> respond i (Inr (ReadResult c)) s
              | Inl e \<Rightarrow> respond i (Inl (- 32603, e)) s)
         | _ \<Rightarrow> respond i (Inl (- 32603, typeErrorMessage)) s)
      else if method = ''fs/write_text_file'' then
        (case params of
           WriteParams p c \<Rightarrow>
             (case writeTextFile fs p c of
                Inr v \<Rightarrow> respond i (Inr v) s
              | Inl e \<Rightarrow> respond i (Inl (- 32603, e)) s)
         | _ \<Rightarrow> respond i (Inl (- 32603, typeErrorMessage)) s)
      else if method = ''session/request_permission'' then
        (case params of
           PermissionParams r \<Rightarrow>
             s\<lparr>pendingPermissionRequest := Some (localPermissionRequest r),
               permissionResolver := Some i\<rparr>
         | _ \<Rightarrow> respond i (Inl (- 32603, typeErrorMessage)) s)
      else respond i (Inl (- 32601, ''Method not found: '' @ method)) s)"

definition resolvePermission :: "string \<Rightarrow> Bridge \<Rightarrow> Bridge" where
  "resolvePermission opt s =
     (case permissionResolver s of
        Some i \<Rightarrow>
          (respond i (Inr (PermissionSelected opt)) s)
            \<lparr>permissionResolver := None, pendingPermissionRequest := None\<rparr>
      | None \<Rightarrow> s)"

definition cancelPermission :: "Bridge \<Rightarrow> Bridge" where
  "cancelPermission s =
     (case permissionResolver s of
        Some i \<Rightarrow>
          (respond i (Inr PermissionCancelled) s)
            \<lparr>permissionResolver := None, pendingPermissionRequest := None\<rparr>
      | None \<Rightarrow> s)"

subsection \<open>Inbound frames\<close>

definition handleNotification :: "string \<Rightarrow> json \<Rightarrow> Bridge \<Rightarrow> Bridge" where
  "handleNotification method params s =
     (if method = ''session/update'' \<and> onSessionUpdate s
      then s\<lparr>notified := notified s @ [params]\<rparr>
      else s)"

text \<open>The branch of handleMessage for a response: a frame with an id and no method.\<close>

definition handleResponse :: "wire_id \<Rightarrow> json option \<Rightarrow> WireError option \<Rightarrow> Bridge \<Rightarrow> Bridge" where
  "handleResponse i res err s =
     (let s1 = s\<lparr>pendingMethods := deleteId (pendingMethods s) i\<rparr> in
      case (lookupId (messageResolvers s1) i, lookupId (messageRejecters s1) i) of
        (Some resolver, Some rejecter) \<Rightarrow>
          let s2 = s1\<lparr>messageResolvers := deleteId (messageResolvers s1) i,
                      messageRejecters := deleteId (messageRejecters s1) i\<rparr>
          in (case err of
                Some e \<Rightarrow> invoke rejecter ByResponse (Rejected (rejectionMessage e)) s2
              | None \<Rightarrow> invoke resolver ByResponse (Resolved res) s2)
      | _ \<Rightarrow> s1)"

text \<open>
  handleMessage on a line of the agent; \<open>None\<close> is a line that \<^verbatim>\<open>JSON.parse\<close> rejects
  or that is no object, which the \<^verbatim>\<open>catch\<close> logs. The three tests exclude one another.
\<close>

definition handleMessage :: "FileAccess \<Rightarrow> Parsed option \<Rightarrow> Bridge \<Rightarrow> Bridge" where
  "handleMessage fs msg s =
     (case msg of
        None \<Rightarrow> s
      | Some parsed \<Rightarrow>
          (case (p_id parsed, p_method parsed) of
             (Some i, None) \<Rightarrow> handleResponse i (p_result parsed) (p_error parsed) s
           | (Some i, Some m) \<Rightarrow> handleRequest fs i m (p_params parsed) s
           | (None, Some m) \<Rightarrow> if m \<noteq> [] then handleNotification m (p_update parsed) s else s
           | (None, None) \<Rightarrow> s))"

subsection \<open>Runs\<close>

text \<open>
  What can happen to a bridge, one event at a time: a caller sends a request, the
  send of a request settles, time passes, a line of the agent arrives, the user decides
  a permission request.
\<close>

datatype Event =
    SendRequest string "json option"
  | SendSettled nat "string option"
  | Elapse nat
  | Message "Parsed option"
  | ResolvePermission string
  | CancelPermission

fun step :: "FileAccess \<Rightarrow> Event \<Rightarrow> Bridge \<Rightarrow> Bridge" where
  "step fs (SendRequest m p) s = sendRequest m p s"
| "step fs (SendSettled rid err) s = sendSettled rid err s"
| "step fs (Elapse d) s = elapse d s"
| "step fs (Message msg) s = handleMessage fs msg s"
| "step fs (ResolvePermission opt) s = resolvePermission opt s"
| "step fs CancelPermission s = cancelPermission s"

fun run :: "FileAccess \<Rightarrow> Event list \<Rightarrow> Bridge \<Rightarrow> Bridge" where
  "run fs [] s = s"
| "run fs (e # es) s = run fs es (step fs e s)"

text \<open>The calls of resolve and reject made for request \<open>k\<close>, in order.\<close>

definition callsOf :: "nat \<Rightarrow> Bridge \<Rightarrow> Invocation list" where
  "callsOf k s = filter (\<lambda>c. promise c = k) (settled s)"

definition armed :: "nat \<Rightarrow> Bridge \<Rightarrow> bool" where
  "armed k s = (k \<in> set (map (\<lambda>x. fst (snd x)) (timers s)))"

subsection \<open>The life of one outbound request\<close>

text \<open>The requests that have a timer among \<open>xs\<close>.\<close>

definition timerIds :: "(nat \<times> nat \<times> string) list \<Rightarrow> nat set" where
  "timerIds xs = (\<lambda>x. fst (snd x)) ` set xs"

text \<open>
  The calls a request may have received once its pending entry is gone: one call; or
  two, the first by a response or the timeout and the second by the \<^verbatim>\<open>catch\<close> of a
  send that had not settled before. \<open>unsettled\<close> says that the send has not settled.
\<close>

fun fired :: "bool \<Rightarrow> Invocation list \<Rightarrow> bool" where
  "fired unsettled [c] = (site c \<noteq> BySendFailure \<or> \<not> unsettled)"
| "fired unsettled [c, f] = (\<not> unsettled \<and> site c \<noteq> BySendFailure \<and> site f = BySendFailure)"
| "fired unsettled _ = False"

text \<open>
  What holds of request \<open>k\<close> in every state a run reaches; \<open>xs\<close> are timers that are
  running their callbacks in the current \<open>elapse\<close>.
\<close>

definition good :: "(nat \<times> nat \<times> string) list \<Rightarrow> Bridge \<Rightarrow> nat \<Rightarrow> bool" where
  "good xs s k =
     ((messageResolvers s k = None \<or> messageResolvers s k = Some k)
      \<and> messageRejecters s k = messageResolvers s k
      \<and> (pendingMethods s k = None \<or> messageResolvers s k = Some k)
      \<and> (if nextRequestId s \<le> k
          then messageResolvers s k = None \<and> k \<notin> set (sends s)
               \<and> k \<notin> timerIds (xs @ timers s) \<and> callsOf k s = []
          else if messageResolvers s k = Some k
          then callsOf k s = [] \<and> k \<in> timerIds (xs @ timers s)
          else fired (k \<in> set (sends s)) (callsOf k s)))"

text \<open>Two states that agree on everything the life of an outbound request depends on.\<close>

definition sameCalls :: "Bridge \<Rightarrow> Bridge \<Rightarrow> bool" where
  "sameCalls s' s =
     (messageResolvers s' = messageResolvers s \<and> messageRejecters s' = messageRejecters s
      \<and> pendingMethods s' = pendingMethods s \<and> nextRequestId s' = nextRequestId s
      \<and> sends s' = sends s \<and> timers s' = timers s \<and> clock s' = clock s
      \<and> settled s' = settled s)"


text \<open>The three entries of request \<open>k\<close> are gone.\<close>

definition removed :: "nat \<Rightarrow> Bridge \<Rightarrow> bool" where
  "removed k s =
     (messageResolvers s k = None \<and> messageRejecters s k = None \<and> pendingMethods s k = None)"

text \<open>
  What the calls made for request \<open>k\<close> look like in state \<open>s\<close>:
  \<^item> none: the request does not exist yet, or both continuations are stored and its
    timer has not run;
  \<^item> one: the entries are gone;
  \<^item> two: the entries are gone, the first call was made by a response or by the
    timeout, and the second is the \<^verbatim>\<open>reject\<close> of the \<^verbatim>\<open>catch\<close> of the send;
  \<^item> never more.
\<close>

definition settlement :: "nat \<Rightarrow> Bridge \<Rightarrow> bool" where
  "settlement k s =
     (case callsOf k s of
        [] \<Rightarrow> nextRequestId s \<le> k
              \<or> (messageResolvers s k = Some k \<and> messageRejecters s k = Some k \<and> armed k s)
      | [c] \<Rightarrow> removed k s
      | [c, f] \<Rightarrow> removed k s \<and> site c \<noteq> BySendFailure \<and> site f = BySendFailure
                 \<and> k \<notin> set (sends s)
      | _ \<Rightarrow> False)"

text \<open>A response without error for request \<open>k\<close>, as handleMessage receives it.\<close>

definition resultFor :: "nat \<Rightarrow> json \<Rightarrow> Parsed option" where
  "resultFor k r =
     Some \<lparr>p_id = Some (NumId k), p_method = None, p_params = BadParams, p_update = [],
           p_result = Some r, p_error = None\<rparr>"

subsection \<open>Waiting for a response\<close>

text \<open>
  The events that settle request \<open>k\<close> before its timeout: a response frame with its id,
  and the failure of its send.
\<close>

fun settles :: "nat \<Rightarrow> Event \<Rightarrow> bool" where
  "settles k (Message (Some parsed)) = (p_id parsed = Some (NumId k) \<and> p_method parsed = None)"
| "settles k (SendSettled rid (Some e)) = (rid = k)"
| "settles k _ = False"

text \<open>The time that passes in a run, in milliseconds.\<close>

fun elapsed :: "Event list \<Rightarrow> nat" where
  "elapsed [] = 0"
| "elapsed (Elapse d # es) = d + elapsed es"
| "elapsed (e # es) = elapsed es"

text \<open>The call the timeout of a request of method \<open>m\<close> makes.\<close>

definition timeoutCall :: "nat \<Rightarrow> string \<Rightarrow> Invocation" where
  "timeoutCall k m =
     \<lparr>promise = k, site = ByTimeout, outcome = Rejected (''Request timeout: '' @ m)\<rparr>"

text \<open>
  Request \<open>k\<close> of method \<open>m\<close> is pending, and the one timer it has is due at \<open>deadline\<close>,
  which is still ahead.
\<close>

definition waiting :: "nat \<Rightarrow> string \<Rightarrow> nat \<Rightarrow> Bridge \<Rightarrow> bool" where
  "waiting k m deadline s =
     (messageResolvers s k = Some k \<and> messageRejecters s k = Some k \<and> pendingMethods s k = Some m
      \<and> callsOf k s = [] \<and> k < nextRequestId s \<and> clock s < deadline
      \<and> (deadline, k, m) \<in> set (timers s)
      \<and> (\<forall>x \<in> set (timers s). fst (snd x) = k \<longrightarrow> x = (deadline, k, m)))"

text \<open>Request \<open>k\<close> of method \<open>m\<close> was rejected by its timeout, and by nothing else.\<close>

definition timedOut :: "nat \<Rightarrow> string \<Rightarrow> Bridge \<Rightarrow> bool" where
  "timedOut k m s =
     (callsOf k s = [timeoutCall k m] \<and> removed k s \<and> k < nextRequestId s)"

text \<open>Request \<open>k\<close> of method \<open>m\<close> is pending and has received no call.\<close>

definition pendingCall :: "nat \<Rightarrow> string \<Rightarrow> Bridge \<Rightarrow> bool" where
  "pendingCall k m s =
     (messageResolvers s k = Some k \<and> messageRejecters s k = Some k \<and> pendingMethods s k = Some m
      \<and> callsOf k s = [])"

text \<open>Its only call is the one of its timeout, and its entries are gone.\<close>

definition rejectedByTimeout :: "nat \<Rightarrow> string \<Rightarrow> Bridge \<Rightarrow> bool" where
  "rejectedByTimeout k m s = (callsOf k s = [timeoutCall k m] \<and> removed k s)"

text \<open>A file-access collaborator that refuses every path, for closed examples.\<close>

definition noFiles :: FileAccess where
  "noFiles = \<lparr>readText = (\<lambda>p. Inl ''not found''), writeText = (\<lambda>p c. Inl ''read-only'')\<rparr>"

subsection \<open>Answers to the agent's requests\<close>

text \<open>A request frame of the agent: a frame with an id and a method.\<close>

definition requestFrame :: "wire_id \<Rightarrow> string \<Rightarrow> Params \<Rightarrow> Parsed option" where
  "requestFrame i m ps =
     Some \<lparr>p_id = Some i, p_method = Some m, p_params = ps, p_update = [],
           p_result = None, p_error = None\<rparr>"

fun isRequestFor :: "wire_id \<Rightarrow> Event \<Rightarrow> bool" where
  "isRequestFor i (Message (Some parsed)) = (p_id parsed = Some i \<and> p_method parsed \<noteq> None)"
| "isRequestFor i _ = False"

text \<open>The response frames with id \<open>i\<close> among the frames sent.\<close>

fun isResponseTo :: "wire_id \<Rightarrow> OutFrame \<Rightarrow> bool" where
  "isResponseTo i (ResultFrame j v) = (j = i)"
| "isResponseTo i (ErrorFrame j c m) = (j = i)"
| "isResponseTo i _ = False"

definition responsesTo :: "wire_id \<Rightarrow> Bridge \<Rightarrow> OutFrame list" where
  "responsesTo i s = filter (isResponseTo i) (sent s)"

text \<open>
  A permission request that requestPermission accepts: it stores its continuation in the
  one field \<^verbatim>\<open>permissionResolver\<close>.
\<close>

fun asksPermission :: "Event \<Rightarrow> bool" where
  "asksPermission (Message (Some parsed)) =
     (p_id parsed \<noteq> None \<and> p_method parsed = Some ''session/request_permission''
      \<and> (case p_params parsed of PermissionParams r \<Rightarrow> True | _ \<Rightarrow> False))"
| "asksPermission _ = False"

text \<open>
  A run in which no permission request arrives while the decision on an earlier one is
  still awaited.
\<close>

fun oneAtATime :: "FileAccess \<Rightarrow> Event list \<Rightarrow> Bridge \<Rightarrow> bool" where
  "oneAtATime fs [] s = True"
| "oneAtATime fs (e # es) s =
     ((\<not> asksPermission e \<or> permissionResolver s = None) \<and> oneAtATime fs es (step fs e s))"

text \<open>The number of requests with id \<open>i\<close> whose response is held back for the user.\<close>

definition awaited :: "wire_id \<Rightarrow> Bridge \<Rightarrow> nat" where
  "awaited i s = (if permissionResolver s = Some i then 1 else 0)"

text \<open>The response handleRequest sends at once, if it sends one.\<close>

definition immediateResponse :: "FileAccess \<Rightarrow> wire_id \<Rightarrow> string \<Rightarrow> Params \<Rightarrow> OutFrame option" where
  "immediateResponse fs i m ps =
     (if m = ''fs/read_text_file'' then
        Some (case ps of
                ReadParams r \<Rightarrow>
                  (case readTextFile (readText fs) r of
                     Inr c \<Rightarrow> ResultFrame i (ReadResult c)
                   | Inl e \<Rightarrow> ErrorFrame i (- 32603) e)
              | _ \<Rightarrow> ErrorFrame i (- 32603) typeErrorMessage)
      else if m = ''fs/write_text_file'' then
        Some (case ps of
                WriteParams p c \<Rightarrow>
                  (case writeText fs p c of
                     Inr u \<Rightarrow> ResultFrame i WriteResult
                   | Inl e \<Rightarrow> ErrorFrame i (- 32603) e)
              | _ \<Rightarrow> ErrorFrame i (- 32603) typeErrorMessage)
      else if m = ''session/request_permission'' then
        (case ps of
           PermissionParams r \<Rightarrow> None
         | _ \<Rightarrow> Some (ErrorFrame i (- 32603) typeErrorMessage))
      else Some (ErrorFrame i (- 32601) (''Method not found: '' @ m)))"

definition permissionParams :: Params where
  "permissionParams =
     PermissionParams
       \<lparr>rp_sessionId = ''s1'',
        rp_toolCall = \<lparr>p_toolCallId = ''call_1'', p_title = None, p_kind = None, p_status = None,
                       p_locations = None\<rparr>,
        rp_options = [\<lparr>opt_kind = ''allow_once'', opt_name = ''Allow'', optionId = ''allow''\<rparr>]\<rparr>"

section \<open>Session establishment (createSession, resumeSession)\<close>

subsection \<open>Recognising the authentication error\<close>

text \<open>
  \<^verbatim>\<open>String.prototype.toLowerCase\<close> on the letters A to Z; other characters stay.
\<close>

definition toLowerChar :: "char \<Rightarrow> char" where
  "toLowerChar c =
     (case map_of (zip ''ABCDEFGHIJKLMNOPQRSTUVWXYZ'' ''abcdefghijklmnopqrstuvwxyz'') c of
        Some l \<Rightarrow> l
      | None \<Rightarrow> c)"

definition toLowerCase :: "string \<Rightarrow> string" where
  "toLowerCase s = map toLowerChar s"

fun startsWith :: "string \<Rightarrow> string \<Rightarrow> bool" where
  "startsWith s [] = True"
| "startsWith [] (n # ns) = False"
| "startsWith (c # cs) (n # ns) = (c = n \<and> startsWith cs ns)"

text \<open>\<^verbatim>\<open>haystack.includes(needle)\<close>\<close>

fun includes_str :: "string \<Rightarrow> string \<Rightarrow> bool" where
  "includes_str [] needle = (needle = [])"
| "includes_str (c # cs) needle = (startsWith (c # cs) needle \<or> includes_str cs needle)"

text \<open>
  The test of both functions on the message of the error that the bridge rejected the
  session request with.
\<close>

definition isAuthRequired :: "string \<Rightarrow> bool" where
  "isAuthRequired errorMessage =
     (includes_str (toLowerCase errorMessage) ''authentication required''
      \<or> includes_str errorMessage ''-32000'')"

subsection \<open>What happens while the store awaits\<close>

text \<open>
  While a function of the store is suspended at an \<^verbatim>\<open>await\<close>, the event loop runs
  other callbacks of the store: a \<^verbatim>\<open>session/update\<close> notification (with the id and the
  clock reading a new message would take), the user's cancellation of the connection
  (cancelConnection up to its own \<^verbatim>\<open>await\<close>, and later the rest of it), and the user's
  answer to the authentication prompt.
\<close>

datatype Concurrent =
    Notify string nat SessionUpdate
  | CancelConnection
  | CancelConnectionDone
  | SelectAuthMethod string
  | CancelAuthSelection

definition logAction :: "Action \<Rightarrow> Store \<Rightarrow> Store" where
  "logAction a s = s\<lparr>trace := trace s @ [a]\<rparr>"

definition selectAuthMethod :: "string \<Rightarrow> Store \<Rightarrow> Store" where
  "selectAuthMethod methodId s =
     (if authMethodResolver s
      then s\<lparr>authChoice := Some (Some methodId), authMethodResolver := False,
             pendingAuthMethods := [], pendingAuthAgentName := []\<rparr>
      else s)"

definition cancelAuthSelection :: "Store \<Rightarrow> Store" where
  "cancelAuthSelection s =
     (if authMethodResolver s
      then s\<lparr>authChoice := Some None, authMethodResolver := False,
             pendingAuthMethods := [], pendingAuthAgentName := []\<rparr>
      else s)"

text \<open>
  cancelConnection up to \<^verbatim>\<open>await acpClient.disconnect()\<close>; without a client there is
  no await and the function runs to its end.
\<close>

definition cancelConnection :: "Store \<Rightarrow> Store" where
  "cancelConnection s =
     (let s1 = s\<lparr>connectionAborted := True\<rparr>;
          s2 = (if authMethodResolver s1
                then s1\<lparr>authChoice := Some None, authMethodResolver := False,
                        pendingAuthMethods := [], pendingAuthAgentName := []\<rparr>
                else s1)
      in case acpClient s2 of
           Some a \<Rightarrow> (logAction (Disconnect a) s2)\<lparr>cancelPending := True\<rparr>
         | None \<Rightarrow> s2\<lparr>isLoading := False, isConnecting := False, error := None\<rparr>)"

text \<open>The rest of cancelConnection, once the disconnect has settled either way.\<close>

definition cancelConnectionDone :: "Store \<Rightarrow> Store" where
  "cancelConnectionDone s =
     (if cancelPending s
      then s\<lparr>cancelPending := False, acpClient := None, isLoading := False,
             isConnecting := False, error := None\<rparr>
      else s)"

fun concurrent :: "Concurrent \<Rightarrow> Store \<Rightarrow> Store" where
  "concurrent (Notify uuid now u) s = handleSessionUpdate uuid now u s"
| "concurrent CancelConnection s = cancelConnection s"
| "concurrent CancelConnectionDone s = cancelConnectionDone s"
| "concurrent (SelectAuthMethod m) s = selectAuthMethod m s"
| "concurrent CancelAuthSelection s = cancelAuthSelection s"

definition concurrently :: "Concurrent list \<Rightarrow> Store \<Rightarrow> Store" where
  "concurrently cs s = fold concurrent cs s"

text \<open>
  An awaited call of a collaborator: what runs while it is pending, and what it
  settles with (\<open>Inl\<close> the message of the error it rejects with). The record leaves
  the two independent. In the program they are not: cancelConnection on a store that
  holds a client calls \<^verbatim>\<open>disconnect\<close> of the bridge, which stops listening to the
  agent, so a request that is pending at that moment can only be rejected, by its timer
  or by a failed send. The statements below hold for every environment; the closed
  examples use environments that the program can meet.
\<close>

record 'a Await =
  during :: "Concurrent list"
  answer :: "string + 'a"

record AgentInstance =
  agent_id :: string
  agent_name :: string

text \<open>
  The parts of the responses that the store reads: of \<^verbatim>\<open>initialize\<close> the capability
  \<^verbatim>\<open>agentCapabilities?.loadSession\<close> and the authentication methods, of
  \<^verbatim>\<open>session/new\<close> the session id and the advertised modes and models.
\<close>

record InitializeResponse =
  init_loadSession :: "bool option"
  init_authMethods :: "AuthMethod list option"

record ModeState =
  ms_availableModes :: "SessionMode list option"
  ms_currentModeId :: "string option"

record ModelState =
  mo_availableModels :: "ModelInfo list option"
  mo_currentModelId :: "string option"

record NewSessionResponse =
  ns_sessionId :: string
  ns_modes :: "ModeState option"
  ns_models :: "ModelState option"

text \<open>
  The environment of one connection attempt: every call the attempt can await, in the
  order of the source. \<open>e_teardown\<close> is the \<^verbatim>\<open>killAgent\<close> inside the one disconnect
  (or kill) that an abandoned attempt awaits before it throws; \<open>e_authPrompt\<close> is what
  happens while the authentication prompt is open. \<open>e_uuid\<close>, \<open>e_date\<close> and \<open>e_now\<close>
  are \<^verbatim>\<open>crypto.randomUUID()\<close>, \<^verbatim>\<open>new Date().toLocaleString()\<close> and \<^verbatim>\<open>Date.now()\<close>
  at the time the session is saved.
\<close>

record Env =
  e_spawn :: "AgentInstance Await"
  e_stderr :: "unit Await"
  e_connect :: "unit Await"
  e_initialize :: "InitializeResponse Await"
  e_session :: "NewSessionResponse Await"
  e_authPrompt :: "Concurrent list"
  e_authenticate :: "unit Await"
  e_retry :: "NewSessionResponse Await"
  e_save :: "unit Await"
  e_teardown :: "unit Await"
  e_uuid :: string
  e_date :: string
  e_now :: nat

text \<open>
  How a call of an async function of the store ends: it throws (the promise rejects with
  an error of that message), it returns, or it stays suspended at an await that never
  settles (the authentication prompt that nobody answers).
\<close>

datatype Completion = Threw string | Returned | Suspended

definition nullClientMessage :: string where
  "nullClientMessage = ''Cannot read properties of null''"

text \<open>
  \<^verbatim>\<open>await acpClient.m(...)\<close> for a request method \<open>m\<close> of the bridge: a TypeError when
  \<^verbatim>\<open>acpClient\<close> is null, else the request is sent and the call suspends.
\<close>

definition request :: "string \<Rightarrow> 'a Await \<Rightarrow> Store \<Rightarrow> (string + 'a) \<times> Store" where
  "request m aw s =
     (case acpClient s of
        None \<Rightarrow> (Inl nullClientMessage, s)
      | Some a \<Rightarrow> (answer aw, concurrently (during aw) (logAction (Request m) s)))"

text \<open>\<^verbatim>\<open>await acpClient.disconnect(); throw new Error(msg)\<close>\<close>

definition disconnectAndThrow :: "Env \<Rightarrow> string \<Rightarrow> Store \<Rightarrow> Completion \<times> Store" where
  "disconnectAndThrow env msg s =
     (case acpClient s of
        None \<Rightarrow> (Threw nullClientMessage, s)
      | Some a \<Rightarrow>
          let s1 = concurrently (during (e_teardown env)) (logAction (Disconnect a) s)
          in case answer (e_teardown env) of
               Inl e \<Rightarrow> (Threw e, s1)
             | Inr u \<Rightarrow> (Threw msg, s1))"

subsection \<open>createSession\<close>

text \<open>From \<^verbatim>\<open>const session = ...\<close> to the end of the \<^verbatim>\<open>try\<close> block.\<close>

definition saveSession :: "Env \<Rightarrow> string \<Rightarrow> string \<Rightarrow> bool \<Rightarrow> NewSessionResponse \<Rightarrow> Store \<Rightarrow> Completion \<times> Store" where
  "saveSession env name dir supports resp s =
     (let session = \<lparr>saved_id = e_uuid env, agentName = name, sessionId = ns_sessionId resp,
                      session_title = ''Session '' @ e_date env, lastUpdated = e_now env,
                      cwd = dir, supportsLoadSession = Some supports\<rparr>;
          s1 = s\<lparr>currentSession := Some session, savedSessions := savedSessions s @ [session]\<rparr>;
          s2 = concurrently (during (e_save env)) (logAction SaveSessions s1)
      in case answer (e_save env) of
           Inl e \<Rightarrow> (Threw e, s2)
         | Inr u \<Rightarrow>
             (Returned,
              (logAction (TrackEvent ''SessionCreated'' True)
                 (s2\<lparr>isConnected := True, messages := [], toolCalls := Map.empty\<rparr>))
              \<lparr>availableModes :=
                  (case ns_modes resp of
                     Some ms \<Rightarrow> (case ms_availableModes ms of Some xs \<Rightarrow> xs | None \<Rightarrow> [])
                   | None \<Rightarrow> []),
                currentModeId :=
                  (case ns_modes resp of Some ms \<Rightarrow> orElse (ms_currentModeId ms) [] | None \<Rightarrow> []),
                availableModels :=
                  (case ns_models resp of
                     Some mo \<Rightarrow> (case mo_availableModels mo of Some xs \<Rightarrow> xs | None \<Rightarrow> [])
                   | None \<Rightarrow> []),
                currentModelId :=
                  (case ns_models resp of Some mo \<Rightarrow> orElse (mo_currentModelId mo) [] | None \<Rightarrow> [])\<rparr>))"

text \<open>promptForAuthMethod, and what happens until its promise is resolved.\<close>

definition promptForAuthMethod :: "Env \<Rightarrow> AuthMethod list \<Rightarrow> string \<Rightarrow> Store \<Rightarrow> Store" where
  "promptForAuthMethod env methods name s =
     concurrently (e_authPrompt env)
       (logAction PromptForAuthMethod
          (s\<lparr>pendingAuthMethods := methods, pendingAuthAgentName := name,
             authMethodResolver := True, authChoice := None\<rparr>))"

text \<open>\<^verbatim>\<open>!selectedMethodId\<close>: null or the empty string.\<close>

fun noMethod :: "string option \<Rightarrow> bool" where
  "noMethod None = True"
| "noMethod (Some m) = (m = [])"

text \<open>The \<^verbatim>\<open>catch (sessionError)\<close> block of createSession.\<close>

definition authenticateAndRetry :: "Env \<Rightarrow> string \<Rightarrow> string \<Rightarrow> bool \<Rightarrow> AuthMethod list \<Rightarrow> string \<Rightarrow> Store \<Rightarrow> Completion \<times> Store" where
  "authenticateAndRetry env name dir supports methods errorMessage s =
     (if isAuthRequired errorMessage \<and> methods \<noteq> []
      then
        let s1 = promptForAuthMethod env methods name s in
        case authChoice s1 of
          None \<Rightarrow> (Suspended, s1)
        | Some selectedMethodId \<Rightarrow>
            if noMethod selectedMethodId \<or> connectionAborted s1
            then disconnectAndThrow env ''Authentication cancelled by user'' s1
            else
              (case request ''authenticate'' (e_authenticate env) s1 of
                 (Inl e, s2) \<Rightarrow> (Threw e, s2)
               | (Inr u, s2) \<Rightarrow>
                   if connectionAborted s2
                   then disconnectAndThrow env ''Connection cancelled'' s2
                   else
                     (case request ''session/new'' (e_retry env) s2 of
                        (Inl e, s3) \<Rightarrow> (Threw e, s3)
                      | (Inr resp, s3) \<Rightarrow> saveSession env name dir supports resp s3))
      else (Threw errorMessage, s))"

text \<open>
  From \<^verbatim>\<open>acpClient.initialize\<close> on. The source tests the flag twice after the
  handshake with no await in between: one test here.
\<close>

definition handshake :: "Env \<Rightarrow> string \<Rightarrow> string \<Rightarrow> Store \<Rightarrow> Completion \<times> Store" where
  "handshake env name dir s =
     (case request ''initialize'' (e_initialize env) s of
        (Inl e, s1) \<Rightarrow> (Threw e, s1)
      | (Inr initResponse, s1) \<Rightarrow>
          let supportsLoadSession =
                (case init_loadSession initResponse of Some b \<Rightarrow> b | None \<Rightarrow> False);
              availableAuthMethods =
                (case init_authMethods initResponse of Some ms \<Rightarrow> ms | None \<Rightarrow> [])
          in if connectionAborted s1
             then disconnectAndThrow env ''Connection cancelled'' s1
             else
               (case request ''session/new'' (e_session env) s1 of
                  (Inr resp, s2) \<Rightarrow> saveSession env name dir supportsLoadSession resp s2
                | (Inl errorMessage, s2) \<Rightarrow>
                    authenticateAndRetry env name dir supportsLoadSession availableAuthMethods
                      errorMessage s2))"

text \<open>The \<^verbatim>\<open>try\<close> block of createSession.\<close>

definition createSessionTry :: "Env \<Rightarrow> string \<Rightarrow> string \<Rightarrow> Store \<Rightarrow> Completion \<times> Store" where
  "createSessionTry env name dir s =
     (let s1 = concurrently (during (e_spawn env)) (logAction (SpawnAgent name) s) in
      case answer (e_spawn env) of
        Inl e \<Rightarrow> (Threw e, s1)
      | Inr agentInstance \<Rightarrow>
          let s2 = concurrently (during (e_stderr env)) (logAction ListenStderr s1) in
          case answer (e_stderr env) of
            Inl e \<Rightarrow> (Threw e, s2)
          | Inr u \<Rightarrow>
              if connectionAborted s2
              then
                let s3 = concurrently (during (e_teardown env))
                           (logAction (KillAgent (agent_id agentInstance)) s2)
                in (case answer (e_teardown env) of
                      Inl e \<Rightarrow> (Threw e, s3)
                    | Inr u \<Rightarrow> (Threw ''Connection cancelled'', s3))
              else
                let s3 = concurrently (during (e_connect env))
                           (logAction (Connect (agent_id agentInstance))
                              (s2\<lparr>startupPhase := ''initializing''\<rparr>))
                in (case answer (e_connect env) of
                      Inl e \<Rightarrow> (Threw e, s3)
                    | Inr u \<Rightarrow>
                        let s4 = s3\<lparr>acpClient := Some (agent_id agentInstance)\<rparr> in
                        if connectionAborted s4
                        then disconnectAndThrow env ''Connection cancelled'' s4
                        else handshake env name dir (s4\<lparr>startupPhase := ''connecting''\<rparr>)))"

text \<open>
  The \<^verbatim>\<open>catch\<close> and \<^verbatim>\<open>finally\<close> blocks. A call that stays suspended runs neither.
\<close>

definition createSessionEnd :: "Completion \<times> Store \<Rightarrow> Completion \<times> Store" where
  "createSessionEnd r =
     (case r of
        (Threw e, s) \<Rightarrow>
          (Threw e,
           (logAction (TrackEvent ''SessionCreated'' False) (s\<lparr>error := Some e, acpClient := None\<rparr>))
           \<lparr>isLoading := False, isConnecting := False\<rparr>)
      | (Returned, s) \<Rightarrow> (Returned, s\<lparr>isLoading := False, isConnecting := False\<rparr>)
      | (Suspended, s) \<Rightarrow> (Suspended, s))"

definition createSession :: "Env \<Rightarrow> string \<Rightarrow> string \<Rightarrow> Store \<Rightarrow> Completion \<times> Store" where
  "createSession env name dir s =
     createSessionEnd
       (createSessionTry env name dir
          (s\<lparr>isLoading := True, isConnecting := True, connectionAborted := False, error := None,
             startupPhase := ''starting''\<rparr>))"

subsection \<open>resumeSession\<close>

text \<open>
  From \<^verbatim>\<open>currentSession.value = savedSession\<close> to the end of the \<^verbatim>\<open>try\<close> block. The
  assignment to \<^verbatim>\<open>savedSession.lastUpdated\<close> writes to the object that
  \<^verbatim>\<open>currentSession\<close> and the list of saved sessions hold: the entry of the list is the
  one with the id of the session.
\<close>

definition resumed :: "Env \<Rightarrow> SavedSession \<Rightarrow> Store \<Rightarrow> Completion \<times> Store" where
  "resumed env savedSession s =
     (let s1 = logAction (TrackEvent ''SessionResumed'' True)
                 (s\<lparr>currentSession := Some savedSession, isConnected := True\<rparr>);
          touched = savedSession\<lparr>lastUpdated := e_now env\<rparr>;
          s2 = s1\<lparr>currentSession := Some touched,
                  savedSessions := map (\<lambda>x. if saved_id x = saved_id savedSession
                                              then x\<lparr>lastUpdated := e_now env\<rparr> else x)
                                     (savedSessions s1)\<rparr>;
          s3 = concurrently (during (e_save env)) (logAction SaveSessions s2)
      in case answer (e_save env) of
           Inl e \<Rightarrow> (Threw e, s3)
         | Inr u \<Rightarrow> (Returned, s3))"

text \<open>The \<^verbatim>\<open>catch (sessionError)\<close> block of resumeSession.\<close>

definition authenticateAndReload :: "Env \<Rightarrow> SavedSession \<Rightarrow> AuthMethod list \<Rightarrow> string \<Rightarrow> Store \<Rightarrow> Completion \<times> Store" where
  "authenticateAndReload env savedSession methods errorMessage s =
     (if isAuthRequired errorMessage \<and> methods \<noteq> []
      then
        let s1 = promptForAuthMethod env methods (agentName savedSession) s in
        case authChoice s1 of
          None \<Rightarrow> (Suspended, s1)
        | Some selectedMethodId \<Rightarrow>
            if noMethod selectedMethodId
            then disconnectAndThrow env ''Authentication cancelled by user'' s1
            else
              (case request ''authenticate'' (e_authenticate env) s1 of
                 (Inl e, s2) \<Rightarrow> (Threw e, s2)
               | (Inr u, s2) \<Rightarrow>
                   (case request ''session/load'' (e_retry env) s2 of
                      (Inl e, s3) \<Rightarrow> (Threw e, s3)
                    | (Inr resp, s3) \<Rightarrow> resumed env savedSession s3))
      else (Threw errorMessage, s))"

text \<open>The \<^verbatim>\<open>try\<close> block of resumeSession.\<close>

definition resumeSessionTry :: "Env \<Rightarrow> SavedSession \<Rightarrow> Store \<Rightarrow> Completion \<times> Store" where
  "resumeSessionTry env savedSession s =
     (let s1 = concurrently (during (e_spawn env)) (logAction (SpawnAgent (agentName savedSession)) s) in
      case answer (e_spawn env) of
        Inl e \<Rightarrow> (Threw e, s1)
      | Inr agentInstance \<Rightarrow>
          let s2 = concurrently (during (e_connect env))
                     (logAction (Connect (agent_id agentInstance)) s1)
          in case answer (e_connect env) of
               Inl e \<Rightarrow> (Threw e, s2)
             | Inr u \<Rightarrow>
                 (case request ''initialize'' (e_initialize env)
                         (s2\<lparr>acpClient := Some (agent_id agentInstance)\<rparr>) of
                    (Inl e, s3) \<Rightarrow> (Threw e, s3)
                  | (Inr initResponse, s3) \<Rightarrow>
                      let availableAuthMethods =
                            (case init_authMethods initResponse of Some ms \<Rightarrow> ms | None \<Rightarrow> []);
                          s4 = s3\<lparr>messages := [], toolCalls := Map.empty\<rparr>
                      in (case request ''session/load'' (e_session env) s4 of
                            (Inr resp, s5) \<Rightarrow> resumed env savedSession s5
                          | (Inl errorMessage, s5) \<Rightarrow>
                              authenticateAndReload env savedSession availableAuthMethods
                                errorMessage s5)))"

definition resumeSessionEnd :: "Completion \<times> Store \<Rightarrow> Completion \<times> Store" where
  "resumeSessionEnd r =
     (case r of
        (Threw e, s) \<Rightarrow>
          (Threw e,
           (logAction (TrackEvent ''SessionResumed'' False) (s\<lparr>error := Some e\<rparr>))
           \<lparr>isLoading := False\<rparr>)
      | (Returned, s) \<Rightarrow> (Returned, s\<lparr>isLoading := False\<rparr>)
      | (Suspended, s) \<Rightarrow> (Suspended, s))"

definition resumeSession :: "Env \<Rightarrow> SavedSession \<Rightarrow> Store \<Rightarrow> Completion \<times> Store" where
  "resumeSession env savedSession s =
     resumeSessionEnd (resumeSessionTry env savedSession (s\<lparr>isLoading := True, error := None\<rparr>))"

subsection \<open>Closed examples\<close>

definition quietly :: "'a \<Rightarrow> 'a Await" where
  "quietly x = \<lparr>during = [], answer = Inr x\<rparr>"

definition failing :: "string \<Rightarrow> 'a Await" where
  "failing e = \<lparr>during = [], answer = Inl e\<rparr>"

definition sessionS1 :: NewSessionResponse where
  "sessionS1 = \<lparr>ns_sessionId = ''s1'', ns_modes = None, ns_models = None\<rparr>"

definition sessionS2 :: NewSessionResponse where
  "sessionS2 = \<lparr>ns_sessionId = ''s2'', ns_modes = None, ns_models = None\<rparr>"

text \<open>
  An agent that advertises one authentication method and answers every request; nothing
  else happens during the attempt, and the user picks the method when asked.
\<close>

definition calmEnv :: Env where
  "calmEnv =
     \<lparr>e_spawn = quietly \<lparr>agent_id = ''agent-1'', agent_name = ''gemini''\<rparr>,
      e_stderr = quietly (),
      e_connect = quietly (),
      e_initialize = quietly \<lparr>init_loadSession = Some True,
                               init_authMethods = Some [\<lparr>auth_id = ''oauth'', auth_name = ''Log in''\<rparr>]\<rparr>,
      e_session = quietly sessionS1,
      e_authPrompt = [SelectAuthMethod ''oauth''],
      e_authenticate = quietly (),
      e_retry = quietly sessionS2,
      e_save = quietly (),
      e_teardown = quietly (),
      e_uuid = ''uuid-1'', e_date = ''1/1/2026'', e_now = 1000\<rparr>"




text \<open>
  The error response \<^verbatim>\<open>{"code": -32000, "message": "Please sign in"}\<close> to
  \<^verbatim>\<open>session/new\<close>, as the bridge's response handler turns it into a rejection.
\<close>

definition signInError :: WireError where
  "signInError = \<lparr>err_code = - 32000, err_message = Some ''Please sign in''\<rparr>"

subsection \<open>Statements about an attempt\<close>

text \<open>The session requests among the calls made so far.\<close>

definition sessionRequests :: "Store \<Rightarrow> Action list" where
  "sessionRequests s =
     filter (\<lambda>a. a = Request ''session/new'' \<or> a = Request ''session/load'') (trace s)"



text \<open>No notification arrives during the attempt.\<close>

fun isNotify :: "Concurrent \<Rightarrow> bool" where
  "isNotify (Notify uuid now u) = True"
| "isNotify _ = False"

definition withoutNotifications :: "Env \<Rightarrow> bool" where
  "withoutNotifications env =
     (\<not> list_ex isNotify
          (during (e_spawn env) @ during (e_stderr env) @ during (e_connect env)
           @ during (e_initialize env) @ during (e_session env) @ e_authPrompt env
           @ during (e_authenticate env) @ during (e_retry env) @ during (e_save env)
           @ during (e_teardown env)))"

text \<open>The spawn, the bridge and the handshake of resumeSession succeed.\<close>

definition handshakeSucceeds :: "Env \<Rightarrow> bool" where
  "handshakeSucceeds env =
     (case (answer (e_spawn env), answer (e_connect env), answer (e_initialize env)) of
        (Inr a, Inr b, Inr c) \<Rightarrow> True
      | _ \<Rightarrow> False)"

text \<open>
  An attempt that was given up: it threw, it sent no session request, and the current
  session is the one of the state it started from.
\<close>

definition abandoned :: "Store \<Rightarrow> Completion \<times> Store \<Rightarrow> bool" where
  "abandoned s r =
     ((case fst r of Threw e \<Rightarrow> True | Returned \<Rightarrow> False | Suspended \<Rightarrow> False)
      \<and> sessionRequests (snd r) = sessionRequests s
      \<and> currentSession (snd r) = currentSession s)"

text \<open>
  Two states with one current session and, in an attempt without notifications, one
  transcript.
\<close>

definition sameSession :: "Env \<Rightarrow> Store \<Rightarrow> Store \<Rightarrow> bool" where
  "sameSession env s1 s =
     (currentSession s1 = currentSession s
      \<and> (\<not> withoutNotifications env \<or> (messages s1 = messages s \<and> toolCalls s1 = toolCalls s)))"

text \<open>
  An attempt that did not return left the current session as it was, unless the save
  of the sessions is what failed, and, when no notification arrived, the transcript too.
\<close>

definition intact :: "Env \<Rightarrow> Store \<Rightarrow> Completion \<times> Store \<Rightarrow> bool" where
  "intact env s r =
     (fst r = Returned
      \<or> ((isl (answer (e_save env)) \<or> currentSession (snd r) = currentSession s)
         \<and> (\<not> withoutNotifications env
            \<or> (messages (snd r) = messages s \<and> toolCalls (snd r) = toolCalls s))))"

text \<open>
  The same for resumeSession, which empties the transcript once the handshake has
  succeeded: from then on the transcript holds what the notifications of the replay put
  into it.
\<close>

definition intactResume :: "Env \<Rightarrow> Store \<Rightarrow> Completion \<times> Store \<Rightarrow> bool" where
  "intactResume env s r =
     (fst r = Returned
      \<or> ((isl (answer (e_save env)) \<or> currentSession (snd r) = currentSession s)
         \<and> (\<not> withoutNotifications env
            \<or> (if handshakeSucceeds env
                then messages (snd r) = [] \<and> toolCalls (snd r) = Map.empty
                else messages (snd r) = messages s \<and> toolCalls (snd r) = toolCalls s))))"

text \<open>
  An attempt that did not return, sent at most \<open>n\<close> session requests and left the
  current session as it was.
\<close>

definition givenUp :: "nat \<Rightarrow> Store \<Rightarrow> Completion \<times> Store \<Rightarrow> bool" where
  "givenUp n s r =
     (fst r \<noteq> Returned
      \<and> length (sessionRequests (snd r)) \<le> length (sessionRequests s) + n
      \<and> currentSession (snd r) = currentSession s)"

text \<open>A store with a transcript and a session, as after a conversation.\<close>

definition earlierSession :: SavedSession where
  "earlierSession =
     \<lparr>saved_id = ''uuid-0'', agentName = ''gemini'', sessionId = ''s0'',
      session_title = ''Session 31/12/2025'', lastUpdated = 500, cwd = ''/work'',
      supportsLoadSession = Some True\<rparr>"

definition chatting :: Store where
  "chatting =
     (handleSessionUpdates
        [(''m1'', 10, UserMessageChunk (Text ''hello'')),
         (''m2'', 20, AgentMessageChunk (Text ''hi there''))]
        initialStore)
     \<lparr>currentSession := Some earlierSession, savedSessions := [earlierSession]\<rparr>"

section \<open>Properties of the traffic recorder\<close>















section \<open>Properties of readTextFile\<close>

lemma split_nl_nonempty: "split_nl s \<noteq> []"
  by (induction s) (auto split: list.splits)

lemma join_nl_Cons: "ls \<noteq> [] \<Longrightarrow> join_nl (l # ls) = l @ newline # join_nl ls"
  by (cases ls) auto

lemma join_nl_cons_head: "ls \<noteq> [] \<Longrightarrow> join_nl ((c # hd ls) # tl ls) = c # join_nl ls"
  by (cases ls; cases "tl ls") auto

lemma join_split: "join_nl (split_nl s) = s"
proof (induction s)
  case Nil
  show ?case by simp
next
  case (Cons c cs)
  show ?case
  proof (cases "c = newline")
    case True
    then show ?thesis
      using Cons.IH by (simp add: join_nl_Cons split_nl_nonempty)
  next
    case False
    obtain l ls where sp: "split_nl cs = l # ls"
      using split_nl_nonempty [of cs] by (cases "split_nl cs") auto
    have "join_nl ((c # l) # ls) = c # join_nl (l # ls)"
      by (cases ls) auto
    with False sp Cons.IH show ?thesis by simp
  qed
qed

lemma js_slice_count:
  assumes "0 \<le> a" and "0 \<le> n"
  shows "js_slice a (a + n) xs = take (nat n) (drop (nat a) xs)"
proof (cases "a \<le> int (length xs)")
  case True
  show ?thesis
  proof (cases "a + n \<le> int (length xs)")
    case True
    with assms show ?thesis
      by (simp add: js_slice_def Let_def min_def)
  next
    case False
    then have "length (drop (nat a) xs) \<le> nat n" using assms by simp
    moreover have "length (drop (nat a) xs) \<le> nat (int (length xs) - a)" using assms by simp
    ultimately show ?thesis
      using assms True False by (simp add: js_slice_def Let_def min_def)
  qed
next
  case False
  with assms show ?thesis
    by (simp add: js_slice_def Let_def min_def)
qed

lemma js_slice_to_end:
  "0 \<le> a \<Longrightarrow> js_slice a (int (length xs)) xs = drop (nat a) xs"
  by (auto simp: js_slice_def Let_def min_def)

text \<open>
  C10. When the file is read and \<^verbatim>\<open>line\<close> and \<^verbatim>\<open>limit\<close> are absent or natural numbers:
  with neither parameter present the content is returned unchanged; otherwise the
  result is the content split at newlines, from the zero-based index \<open>line - 1\<close>
  (index 0 when \<^verbatim>\<open>line\<close> is absent, null or 0), at most \<^verbatim>\<open>limit\<close> lines of it
  (all of them when \<^verbatim>\<open>limit\<close> is absent, null or 0), joined with newlines again.
\<close>

theorem readTextFile_lines:
  assumes "fs (path params) = Inr txt"
    and "absent_or_nat (line params)" and "absent_or_nat (limit params)"
  shows "readTextFile fs params =
     Inr (if line params = Undefined \<and> limit params = Undefined then txt
          else join_nl (at_most (limit params) (drop (first_index (line params)) (split_nl txt))))"
proof -
  define startLine where
    "startLine = (case line params of Num n \<Rightarrow> if n \<noteq> 0 then n - 1 else 0 | _ \<Rightarrow> 0)"
  have start0: "0 \<le> startLine"
    using assms(2) by (cases "line params") (simp_all add: startLine_def)
  have start1: "nat startLine = first_index (line params)"
    using assms(2) by (cases "line params") (auto simp: startLine_def nat_diff_distrib)
  note start = start0 start1
  have "js_slice startLine
          (case limit params of
             Num n \<Rightarrow> if n \<noteq> 0 then startLine + n else int (length (split_nl txt))
           | _ \<Rightarrow> int (length (split_nl txt)))
          (split_nl txt)
        = at_most (limit params) (drop (first_index (line params)) (split_nl txt))"
    using assms(3) start
    by (cases "limit params") (simp_all add: js_slice_count js_slice_to_end)
  from this [unfolded startLine_def] assms(1) show ?thesis
    by (simp add: readTextFile_def Let_def)
qed

theorem readTextFile_lines_witness:
  "readTextFile (\<lambda>p. Inr [CHR ''a'', CHR 0x0A, CHR ''b'', CHR 0x0A, CHR ''c''])
      \<lparr>path = ''f'', line = Num 2, limit = Num 1\<rparr> = Inr ''b''
   \<and> readTextFile (\<lambda>p. Inr [CHR ''a'', CHR 0x0A, CHR ''b'', CHR 0x0A, CHR ''c''])
      \<lparr>path = ''f'', line = Null, limit = Num 0\<rparr> = Inr [CHR ''a'', CHR 0x0A, CHR ''b'', CHR 0x0A, CHR ''c'']"
  using readTextFile_lines [of "\<lambda>p. Inr [CHR ''a'', CHR 0x0A, CHR ''b'', CHR 0x0A, CHR ''c'']"
      "\<lparr>path = ''f'', line = Num 2, limit = Num 1\<rparr>"]
    readTextFile_lines [of "\<lambda>p. Inr [CHR ''a'', CHR 0x0A, CHR ''b'', CHR 0x0A, CHR ''c'']"
      "\<lparr>path = ''f'', line = Null, limit = Num 0\<rparr>"]
  by (simp add: newline_def)

section \<open>Properties of the conversation assembly\<close>

lemma textChunk_step:
  "r \<noteq> System \<Longrightarrow>
   handleSessionUpdate uuid now (textChunk r t) s
     = s\<lparr>messages := appendOrCreate uuid now r t (messages s)\<rparr>"
  by (cases r)
     (auto simp: textChunk_def appendOrCreate_def chunkMessage_def lastMessage_def setLast_def)

lemma appendOrCreate_last:
  "appendOrCreate uuid now r t ms \<noteq> [] \<and> role (last (appendOrCreate uuid now r t ms)) = r"
  by (simp add: appendOrCreate_def chunkMessage_def)

lemma appendOrCreate_twice:
  "appendOrCreate uuid' now' r t' (appendOrCreate uuid now r t ms)
     = appendOrCreate uuid now r (t @ t') ms"
  by (simp add: appendOrCreate_def chunkMessage_def)

lemma textChunks_run:
  "r \<noteq> System \<Longrightarrow>
   handleSessionUpdates (textChunks r ((uuid, now, t) # xs)) s
     = s\<lparr>messages := appendOrCreate uuid now r (t @ concat (map (\<lambda>(u, n, t). t) xs)) (messages s)\<rparr>"
proof (induction xs arbitrary: s uuid now t rule: rev_induct)
  case Nil
  then show ?case
    by (simp add: textChunks_def textChunk_step)
next
  case (snoc x xs)
  obtain u n t' where x: "x = (u, n, t')"
    by (cases x) auto
  have run_append: "handleSessionUpdates (us @ vs) s0 = handleSessionUpdates vs (handleSessionUpdates us s0)"
    for us vs s0
    by (induction us arbitrary: s0) auto
  have "handleSessionUpdates (textChunks r ((uuid, now, t) # xs @ [x])) s
      = handleSessionUpdate u n (textChunk r t') (handleSessionUpdates (textChunks r ((uuid, now, t) # xs)) s)"
    using run_append [of "textChunks r ((uuid, now, t) # xs)" "[(u, n, textChunk r t')]" s]
    by (simp add: textChunks_def x)
  then show ?case
    using snoc.prems by (simp add: snoc.IH textChunk_step appendOrCreate_twice x)
qed

text \<open>
  C7. A text chunk of the user or of the assistant is appended to the content of the last
  transcript entry when that entry has the chunk's role; otherwise a new message with
  the role and the text is appended; nothing else of the store changes. A run of
  chunks of one role adds their concatenation, in the order of arrival, to one message.
\<close>

theorem text_chunks_concatenate:
  assumes "r \<noteq> System"
  shows "handleSessionUpdate uuid now (textChunk r t) s
           = s\<lparr>messages :=
                 (if messages s \<noteq> [] \<and> role (last (messages s)) = r
                  then butlast (messages s)
                       @ [(last (messages s))\<lparr>content := content (last (messages s)) @ t\<rparr>]
                  else messages s
                       @ [\<lparr>msg_id = uuid, role = r, content = t, msg_timestamp = now, thought = None,
                           msg_toolCalls = (if r = Assistant then Some [] else None)\<rparr>])\<rparr>
         \<and> handleSessionUpdates (textChunks r ((uuid, now, t) # xs)) s
           = s\<lparr>messages :=
                 appendOrCreate uuid now r (t @ concat (map (\<lambda>(u, n, t). t) xs)) (messages s)\<rparr>"
  using assms textChunk_step [of r uuid now t s] textChunks_run [of r uuid now t xs s]
  by (simp add: appendOrCreate_def chunkMessage_def)

theorem text_chunks_concatenate_witness:
  "messages (handleSessionUpdates
      [(''m1'', 10, AgentMessageChunk (Text ''Hel'')), (''m2'', 20, AgentMessageChunk (Text ''lo''))]
      initialStore)
     = [\<lparr>msg_id = ''m1'', role = Assistant, content = ''Hello'', msg_timestamp = 10,
         thought = None, msg_toolCalls = Some []\<rparr>]"
  using text_chunks_concatenate [of Assistant "''m1''" 10 "''Hel''" initialStore "[(''m2'', 20, ''lo'')]"]
  by (simp add: textChunks_def textChunk_def appendOrCreate_def chunkMessage_def initialStore_def
      lastMessage_def setLast_def)

subsection \<open>Tool-call updates\<close>

lemma applyUpdate_fields:
  "applyUpdate st ti tc =
     tc\<lparr>status := (case st of Some x \<Rightarrow> x | None \<Rightarrow> status tc),
        tc_title := (case ti of Some t \<Rightarrow> if t = [] then tc_title tc else t | None \<Rightarrow> tc_title tc)\<rparr>"
  by (cases st; cases ti) (simp_all add: applyUpdate_def)

lemma applyUpdate_id [simp]: "toolCallId (applyUpdate st ti tc) = toolCallId tc"
  by (simp add: applyUpdate_fields)

lemma applyUpdate_idem [simp]: "applyUpdate st ti (applyUpdate st ti tc) = applyUpdate st ti tc"
  by (cases st; cases ti) (simp_all add: applyUpdate_def Let_def)

lemma updateFound_idem:
  assumes "\<And>x. p (f x) = p x" and "\<And>x. f (f x) = f x"
  shows "updateFound p f (updateFound p f xs) = updateFound p f xs"
  by (induction xs) (simp_all add: assms)

lemma updateFound_first:
  "updateFound p f xs =
     takeWhile (Not \<circ> p) xs @ (case dropWhile (Not \<circ> p) xs of [] \<Rightarrow> [] | x # rest \<Rightarrow> f x # rest)"
  by (induction xs) simp_all

lemma updateFound_distinct:
  "distinct (map k xs) \<Longrightarrow>
   updateFound (\<lambda>x. k x = a) f xs = map (\<lambda>x. if k x = a then f x else x) xs"
proof (induction xs)
  case Nil
  show ?case by simp
next
  case (Cons x xs)
  show ?case
  proof (cases "k x = a")
    case True
    with Cons.prems have "\<forall>y \<in> set xs. k y \<noteq> a" by (metis distinct.simps(2) image_eqI list.simps(9) set_map)
    then have "map (\<lambda>x. if k x = a then f x else x) xs = xs"
      by (simp add: map_idI)
    with True show ?thesis by simp
  next
    case False
    with Cons show ?thesis by simp
  qed
qed

lemma updateInMessage_idem:
  "updateInMessage tid st ti (updateInMessage tid st ti msg) = updateInMessage tid st ti msg"
  by (cases "msg_toolCalls msg") (simp_all add: updateInMessage_def updateFound_idem)

lemma toolCallUpdate_unknown:
  "toolCalls s tid = None \<Longrightarrow> handleSessionUpdate uuid now (ToolCallUpdate tid st ti) s = s"
  by simp

lemma toolCallUpdate_idem:
  "handleSessionUpdate uuid' now' (ToolCallUpdate tid st ti)
     (handleSessionUpdate uuid now (ToolCallUpdate tid st ti) s)
   = handleSessionUpdate uuid now (ToolCallUpdate tid st ti) s"
  by (cases "toolCalls s tid") (simp_all add: updateInMessage_idem)

text \<open>The claim's reading of an update: status and title, where the update has them.\<close>

lemma updateInMessage_first:
  "updateInMessage tid st ti msg =
     msg\<lparr>msg_toolCalls :=
       map_option
         (\<lambda>tcs. takeWhile (\<lambda>t. toolCallId t \<noteq> tid) tcs
                @ (case dropWhile (\<lambda>t. toolCallId t \<noteq> tid) tcs of
                     [] \<Rightarrow> []
                   | tc # rest \<Rightarrow> applyUpdate st ti tc # rest))
         (msg_toolCalls msg)\<rparr>"
  by (cases "msg_toolCalls msg") (simp_all add: updateInMessage_def updateFound_first comp_def)

text \<open>
  C8 (as amended). A tool-call update for an id that the global table does not hold
  leaves the store unchanged. For an id it holds, the status and the title of the update
  (each when present, the title also non-empty) are written to the global record and, in
  every message of the transcript that has a tool-call list, to the first entry with
  that id; the other fields of the record, the other entries and the rest of the store
  stay as they were. Where the ids of a message's list are distinct, that first entry is
  every matching entry. Handling the same update a second time changes nothing.
\<close>

theorem tool_call_update_effect:
  "(toolCalls s tid = None \<longrightarrow> handleSessionUpdate uuid now (ToolCallUpdate tid st ti) s = s)
   \<and> (\<forall>existing. toolCalls s tid = Some existing \<longrightarrow>
        handleSessionUpdate uuid now (ToolCallUpdate tid st ti) s
          = s\<lparr>toolCalls := (toolCalls s)(tid \<mapsto>
                  existing\<lparr>status := (case st of Some x \<Rightarrow> x | None \<Rightarrow> status existing),
                            tc_title := (case ti of Some t \<Rightarrow> if t = [] then tc_title existing else t
                                         | None \<Rightarrow> tc_title existing)\<rparr>),
               messages := map (\<lambda>msg. msg\<lparr>msg_toolCalls :=
                   map_option
                     (\<lambda>tcs. takeWhile (\<lambda>t. toolCallId t \<noteq> tid) tcs
                            @ (case dropWhile (\<lambda>t. toolCallId t \<noteq> tid) tcs of
                                 [] \<Rightarrow> []
                               | tc # rest \<Rightarrow> applyUpdate st ti tc # rest))
                     (msg_toolCalls msg)\<rparr>) (messages s)\<rparr>)
   \<and> (\<forall>tcs. distinct (map toolCallId tcs) \<longrightarrow>
        updateInMessage tid st ti (msg\<lparr>msg_toolCalls := Some tcs\<rparr>)
          = msg\<lparr>msg_toolCalls :=
                  Some (map (\<lambda>t. if toolCallId t = tid then applyUpdate st ti t else t) tcs)\<rparr>)
   \<and> handleSessionUpdate uuid' now' (ToolCallUpdate tid st ti)
        (handleSessionUpdate uuid now (ToolCallUpdate tid st ti) s)
      = handleSessionUpdate uuid now (ToolCallUpdate tid st ti) s"
proof (intro conjI allI impI)
  assume "toolCalls s tid = None"
  then show "handleSessionUpdate uuid now (ToolCallUpdate tid st ti) s = s"
    by (rule toolCallUpdate_unknown)
next
  fix existing
  assume "toolCalls s tid = Some existing"
  then have "handleSessionUpdate uuid now (ToolCallUpdate tid st ti) s
      = s\<lparr>toolCalls := (toolCalls s)(tid \<mapsto> applyUpdate st ti existing),
           messages := map (updateInMessage tid st ti) (messages s)\<rparr>"
    by simp
  also have "updateInMessage tid st ti = (\<lambda>msg. msg\<lparr>msg_toolCalls :=
                   map_option
                     (\<lambda>tcs. takeWhile (\<lambda>t. toolCallId t \<noteq> tid) tcs
                            @ (case dropWhile (\<lambda>t. toolCallId t \<noteq> tid) tcs of
                                 [] \<Rightarrow> []
                               | tc # rest \<Rightarrow> applyUpdate st ti tc # rest))
                     (msg_toolCalls msg)\<rparr>)"
    by (rule ext) (rule updateInMessage_first)
  finally show "handleSessionUpdate uuid now (ToolCallUpdate tid st ti) s
          = s\<lparr>toolCalls := (toolCalls s)(tid \<mapsto>
                  existing\<lparr>status := (case st of Some x \<Rightarrow> x | None \<Rightarrow> status existing),
                            tc_title := (case ti of Some t \<Rightarrow> if t = [] then tc_title existing else t
                                         | None \<Rightarrow> tc_title existing)\<rparr>),
               messages := map (\<lambda>msg. msg\<lparr>msg_toolCalls :=
                   map_option
                     (\<lambda>tcs. takeWhile (\<lambda>t. toolCallId t \<noteq> tid) tcs
                            @ (case dropWhile (\<lambda>t. toolCallId t \<noteq> tid) tcs of
                                 [] \<Rightarrow> []
                               | tc # rest \<Rightarrow> applyUpdate st ti tc # rest))
                     (msg_toolCalls msg)\<rparr>) (messages s)\<rparr>"
    unfolding applyUpdate_fields [of st ti existing] .
next
  fix tcs :: "ToolCallInfo list"
  assume "distinct (map toolCallId tcs)"
  then show "updateInMessage tid st ti (msg\<lparr>msg_toolCalls := Some tcs\<rparr>)
          = msg\<lparr>msg_toolCalls :=
                  Some (map (\<lambda>t. if toolCallId t = tid then applyUpdate st ti t else t) tcs)\<rparr>"
    using updateFound_distinct [of toolCallId tcs tid "applyUpdate st ti"]
    by (simp add: updateInMessage_def)
next
  show "handleSessionUpdate uuid' now' (ToolCallUpdate tid st ti)
        (handleSessionUpdate uuid now (ToolCallUpdate tid st ti) s)
      = handleSessionUpdate uuid now (ToolCallUpdate tid st ti) s"
    by (rule toolCallUpdate_idem)
qed

theorem tool_call_update_effect_witness:
  "handleSessionUpdate ''u'' 5 (ToolCallUpdate ''call_2'' (Some Failed) None) announcedTwice = announcedTwice
   \<and> map_option status
        (toolCalls (handleSessionUpdate ''u'' 5 (ToolCallUpdate ''call_1'' (Some Failed) (Some [])) announcedTwice)
           ''call_1'') = Some Failed
   \<and> map_option tc_title
        (toolCalls (handleSessionUpdate ''u'' 5 (ToolCallUpdate ''call_1'' (Some Failed) (Some [])) announcedTwice)
           ''call_1'') = Some ''Edit a.txt''"
  using tool_call_update_effect [of announcedTwice "''call_2''" "''u''" 5 "Some Failed" None]
    tool_call_update_effect [of announcedTwice "''call_1''" "''u''" 5 "Some Failed" "Some []"]
  by (simp add: announcedTwice_def initialStore_def lastMessage_def setLast_def Let_def)

text \<open>
  The claim as stated fails where a message holds two entries with one id (the agent
  announced the tool call twice): the update reaches the first entry only.
\<close>

theorem tool_call_update_second_entry_counterexample:
  "toolCalls announcedTwice ''call_1'' \<noteq> None
   \<and> map (\<lambda>m. map_option (map (\<lambda>tc. (toolCallId tc, status tc))) (msg_toolCalls m))
       (messages (handleSessionUpdate ''m4'' 4 (ToolCallUpdate ''call_1'' (Some Completed) None) announcedTwice))
     = [Some [(''call_1'', Completed), (''call_1'', Pending)]]
   \<and> \<not> list_all
         (\<lambda>m. list_all (\<lambda>tc. toolCallId tc \<noteq> ''call_1'' \<or> status tc = Completed)
                (case msg_toolCalls m of None \<Rightarrow> [] | Some tcs \<Rightarrow> tcs))
         (messages (handleSessionUpdate ''m4'' 4 (ToolCallUpdate ''call_1'' (Some Completed) None) announcedTwice))"
  by (simp add: announcedTwice_def initialStore_def lastMessage_def setLast_def updateInMessage_def Let_def
      applyUpdate_def)

section \<open>Properties of the bridge\<close>

subsection \<open>Every reachable state is good\<close>

lemma callsOf_invoke:
  "callsOf k (invoke p w v s) =
     callsOf k s @ (if p = k then [\<lparr>promise = p, site = w, outcome = v\<rparr>] else [])"
  by (simp add: callsOf_def invoke_def)

lemma invoke_fields [simp]:
  "messageResolvers (invoke p w v s) = messageResolvers s"
  "messageRejecters (invoke p w v s) = messageRejecters s"
  "pendingMethods (invoke p w v s) = pendingMethods s"
  "nextRequestId (invoke p w v s) = nextRequestId s"
  "sends (invoke p w v s) = sends s"
  "timers (invoke p w v s) = timers s"
  "clock (invoke p w v s) = clock s"
  "sent (invoke p w v s) = sent s"
  "permissionResolver (invoke p w v s) = permissionResolver s"
  by (simp_all add: invoke_def)

lemma callsOf_update [simp]:
  "callsOf k (s\<lparr>messageResolvers := a\<rparr>) = callsOf k s"
  "callsOf k (s\<lparr>messageRejecters := a\<rparr>) = callsOf k s"
  "callsOf k (s\<lparr>pendingMethods := b\<rparr>) = callsOf k s"
  "callsOf k (s\<lparr>nextRequestId := c\<rparr>) = callsOf k s"
  "callsOf k (s\<lparr>sends := d\<rparr>) = callsOf k s"
  "callsOf k (s\<lparr>timers := e\<rparr>) = callsOf k s"
  "callsOf k (s\<lparr>clock := c\<rparr>) = callsOf k s"
  "callsOf k (s\<lparr>sent := f\<rparr>) = callsOf k s"
  "callsOf k (s\<lparr>permissionResolver := g\<rparr>) = callsOf k s"
  "callsOf k (s\<lparr>pendingPermissionRequest := h\<rparr>) = callsOf k s"
  "callsOf k (s\<lparr>notified := i\<rparr>) = callsOf k s"
  by (simp_all add: callsOf_def)

lemma fired_snoc_fail:
  "fired True cs \<Longrightarrow> fired False (cs @ [\<lparr>promise = p, site = BySendFailure, outcome = v\<rparr>])"
  by (cases "(True, cs)" rule: fired.cases) auto

lemma fired_settle: "fired True cs \<Longrightarrow> fired False cs"
  by (cases "(True, cs)" rule: fired.cases) auto

lemma fired_weaken: "fired u cs \<Longrightarrow> fired (u \<and> b) cs"
  by (cases "(u, cs)" rule: fired.cases) auto

lemma good_initial: "good [] initialBridge k"
  by (simp add: good_def initialBridge_def callsOf_def timerIds_def)

lemma good_sendRequest:
  assumes "\<forall>k. good xs s k"
  shows "good xs (sendRequest m p s) k"
  using assms [rule_format, of k] assms [rule_format, of "nextRequestId s"]
  by (auto simp: good_def sendRequest_def Let_def callsOf_def timerIds_def split: if_splits)

lemma good_sendSettled:
  assumes "\<forall>k. good xs s k"
  shows "good xs (sendSettled rid err s) k"
proof (cases "rid \<in> set (sends s)")
  case False
  then show ?thesis
    using assms by (simp add: sendSettled_def)
next
  case True
  note mem = this
  have rid: "good xs s rid" and k: "good xs s k"
    using assms by auto
  show ?thesis
  proof (cases err)
    case None
    then show ?thesis
      using k mem
      by (auto simp: good_def sendSettled_def Let_def callsOf_def fired_settle fired_weaken
          split: if_splits)
  next
    case (Some e)
    show ?thesis
    proof (cases "k = rid")
      case False
      then show ?thesis
        using k mem Some
        by (auto simp: good_def sendSettled_def Let_def callsOf_invoke fired_weaken
            split: if_splits)
    next
      case True
      then show ?thesis
        using rid mem Some
        by (auto simp: good_def sendSettled_def Let_def callsOf_invoke fired_snoc_fail
            split: if_splits)
    qed
  qed
qed

lemma good_timeoutFired:
  assumes "\<forall>k. good (x # xs) s k"
  shows "good xs (timeoutFired x s) k"
proof -
  obtain deadline rid m where x: "x = (deadline, rid, m)"
    by (cases x) auto
  have rid: "good (x # xs) s rid" and k: "good (x # xs) s k"
    using assms by auto
  show ?thesis
  proof (cases "k = rid")
    case True
    then show ?thesis
      using rid
      by (auto simp: x good_def timeoutFired_def callsOf_invoke timerIds_def split: if_splits)
  next
    case False
    then show ?thesis
      using k
      by (auto simp: x good_def timeoutFired_def callsOf_invoke timerIds_def split: if_splits)
  qed
qed

lemma good_fold_timeoutFired:
  "\<forall>k. good (ys @ xs) s k \<Longrightarrow> good xs (fold timeoutFired ys s) k"
proof (induction ys arbitrary: s k)
  case Nil
  then show ?case by simp
next
  case (Cons y ys)
  have "\<forall>k. good (ys @ xs) (timeoutFired y s) k"
    using Cons.prems good_timeoutFired [of y "ys @ xs" s] by simp
  then show ?case
    using Cons.IH by simp
qed

lemma timerIds_partition:
  "timerIds (filter p ts @ filter (\<lambda>x. \<not> p x) ts) = timerIds ts"
  by (auto simp: timerIds_def)

lemma good_timers_cong:
  assumes "good xs s k" and "timerIds (ys @ ts) = timerIds (xs @ timers s)"
  shows "good ys (s\<lparr>clock := t, timers := ts\<rparr>) k"
  using assms by (simp add: good_def)

lemma good_elapse:
  assumes "\<forall>k. good [] s k"
  shows "good [] (elapse d s) k"
proof -
  let ?t = "clock s + d"
  have "\<forall>k. good (filter (due ?t) (timers s) @ [])
          (s\<lparr>clock := ?t, timers := filter (\<lambda>x. \<not> due ?t x) (timers s)\<rparr>) k"
    using assms good_timers_cong [of "[]" s _ "filter (due ?t) (timers s)"
        "filter (\<lambda>x. \<not> due ?t x) (timers s)" ?t]
    by (simp add: timerIds_partition)
  then show ?thesis
    unfolding elapse_def Let_def by (rule good_fold_timeoutFired)
qed

lemma good_handleResponse:
  assumes "\<forall>k. good xs s k"
  shows "good xs (handleResponse i res err s) k"
proof (cases i)
  case (NumId n)
  have n: "good xs s n" and k: "good xs s k"
    using assms by auto
  show ?thesis
  proof (cases "k = n")
    case True
    then show ?thesis
      using n
      by (auto simp: NumId good_def handleResponse_def Let_def callsOf_invoke
          split: if_splits option.splits)
  next
    case False
    then show ?thesis
      using k n
      by (auto simp: NumId good_def handleResponse_def Let_def callsOf_invoke
          split: if_splits option.splits)
  qed
next
  case (StrId x)
  then show ?thesis
    using assms by (simp add: good_def handleResponse_def)
next
  case OtherId
  then show ?thesis
    using assms by (simp add: good_def handleResponse_def)
qed

text \<open>Handling a request of the agent and deciding a permission leave the calls alone.\<close>

lemma respond_fields [simp]:
  "messageResolvers (respond i r s) = messageResolvers s"
  "messageRejecters (respond i r s) = messageRejecters s"
  "pendingMethods (respond i r s) = pendingMethods s"
  "nextRequestId (respond i r s) = nextRequestId s"
  "sends (respond i r s) = sends s"
  "timers (respond i r s) = timers s"
  "clock (respond i r s) = clock s"
  "settled (respond i r s) = settled s"
  "permissionResolver (respond i r s) = permissionResolver s"
  by (simp_all add: respond_def split: sum.splits prod.splits)

lemma sameCalls_good: "sameCalls s' s \<Longrightarrow> good xs s' k = good xs s k"
  by (simp add: sameCalls_def good_def callsOf_def)

lemma sameCalls_respond [simp]: "sameCalls (respond i r s) s"
  by (simp add: sameCalls_def)

lemma sameCalls_handleRequest: "sameCalls (handleRequest fs i m p s) s"
  by (simp add: handleRequest_def split: Params.splits sum.splits) (simp add: sameCalls_def)

lemma sameCalls_resolvePermission: "sameCalls (resolvePermission opt s) s"
  by (simp add: resolvePermission_def sameCalls_def split: option.splits)

lemma sameCalls_cancelPermission: "sameCalls (cancelPermission s) s"
  by (simp add: cancelPermission_def sameCalls_def split: option.splits)

lemma sameCalls_handleNotification: "sameCalls (handleNotification m u s) s"
  by (simp add: handleNotification_def sameCalls_def)

lemma good_handleMessage:
  assumes "\<forall>k. good [] s k"
  shows "good [] (handleMessage fs msg s) k"
  using assms
  by (auto simp: handleMessage_def good_handleResponse sameCalls_good [OF sameCalls_handleRequest]
      sameCalls_good [OF sameCalls_handleNotification] split: option.splits)

lemma good_step:
  assumes "\<forall>k. good [] s k"
  shows "good [] (step fs e s) k"
  using assms
  by (cases e)
     (simp_all add: good_sendRequest good_sendSettled good_elapse good_handleMessage
       sameCalls_good [OF sameCalls_resolvePermission] sameCalls_good [OF sameCalls_cancelPermission])

lemma good_run: "\<forall>k. good [] s k \<Longrightarrow> \<forall>k. good [] (run fs es s) k"
proof (induction es arbitrary: s)
  case Nil
  then show ?case by simp
next
  case (Cons e es)
  have "\<forall>k. good [] (step fs e s) k"
    using Cons.prems by (simp add: good_step)
  then show ?case
    using Cons.IH by simp
qed

lemma good_reachable: "good [] (run fs es initialBridge) k"
  using good_run [of initialBridge fs es] by (simp add: good_initial)

lemma timeoutFired_frame [simp]:
  "nextRequestId (timeoutFired x s) = nextRequestId s"
  "clock (timeoutFired x s) = clock s"
  "timers (timeoutFired x s) = timers s"
  "sends (timeoutFired x s) = sends s"
  "sent (timeoutFired x s) = sent s"
  by (cases x; simp add: timeoutFired_def)+

lemma fold_timeoutFired_frame [simp]:
  "nextRequestId (fold timeoutFired xs s) = nextRequestId s"
  "clock (fold timeoutFired xs s) = clock s"
  "timers (fold timeoutFired xs s) = timers s"
  "sends (fold timeoutFired xs s) = sends s"
  "sent (fold timeoutFired xs s) = sent s"
  by (induction xs arbitrary: s; simp)+

subsection \<open>Resolve and reject of an outbound request\<close>

lemma good_settlement: "good [] s k \<Longrightarrow> settlement k s"
proof -
  assume g: "good [] s k"
  show ?thesis
  proof (cases "nextRequestId s \<le> k")
    case True
    with g show ?thesis
      by (simp add: good_def settlement_def)
  next
    case False
    note created = this
    show ?thesis
    proof (cases "messageResolvers s k = Some k")
      case True
      with g created show ?thesis
        by (simp add: good_def settlement_def armed_def timerIds_def)
    next
      case False
      with g created have f: "fired (k \<in> set (sends s)) (callsOf k s)"
        and r: "removed k s"
        by (auto simp: good_def removed_def)
      from f r show ?thesis
        by (cases "(k \<in> set (sends s), callsOf k s)" rule: fired.cases)
           (auto simp: settlement_def)
    qed
  qed
qed

text \<open>
  C1 (as amended). In every state that any interleaving of requests, responses, send
  outcomes, timeouts and other events reaches, a request has received no call while its
  two continuations are stored (and then its timer is still to run), and otherwise one
  call, after which its entries are gone, so that neither a response nor the timeout
  calls again; the only second call there can be is the \<^verbatim>\<open>reject\<close> of a send failure
  that arrives after a response or the timeout has settled the request.
\<close>

theorem pending_call_settled_once:
  "settlement k (run fs es initialBridge)"
  by (rule good_settlement) (rule good_reachable)

text \<open>
  The claim as stated fails: the \<^verbatim>\<open>catch\<close> of the send does not look at the pending
  entry. A response that arrives before the send is reported as failed resolves the
  promise, and the failure then calls reject.
\<close>

theorem send_failure_after_response_counterexample:
  "map (\<lambda>c. (site c, outcome c))
     (callsOf 0 (run noFiles [SendRequest ''initialize'' None, Message (resultFor 0 ''{}''),
                         SendSettled 0 (Some ''broken pipe'')] initialBridge))
   = [(ByResponse, Resolved (Some ''{}'')), (BySendFailure, Rejected ''broken pipe'')]"
  by (simp add: initialBridge_def sendRequest_def handleMessage_def resultFor_def handleResponse_def
      sendSettled_def invoke_def callsOf_def Let_def)

subsection \<open>The timeout of an outbound request\<close>

lemma timeoutFired_other:
  assumes "fst (snd x) \<noteq> k"
  shows "messageResolvers (timeoutFired x s) k = messageResolvers s k"
    and "messageRejecters (timeoutFired x s) k = messageRejecters s k"
    and "pendingMethods (timeoutFired x s) k = pendingMethods s k"
    and "callsOf k (timeoutFired x s) = callsOf k s"
  using assms by (cases x; simp add: timeoutFired_def callsOf_invoke)+

lemma rejectedByTimeout_timeoutFired:
  "rejectedByTimeout k m s \<Longrightarrow> rejectedByTimeout k m (timeoutFired x s)"
proof (cases "fst (snd x) = k")
  case True
  assume "rejectedByTimeout k m s"
  with True show ?thesis
    by (cases x) (simp add: rejectedByTimeout_def removed_def timeoutFired_def)
next
  case False
  assume "rejectedByTimeout k m s"
  with False show ?thesis
    by (simp add: rejectedByTimeout_def removed_def timeoutFired_other)
qed

lemma rejectedByTimeout_fold:
  "rejectedByTimeout k m s \<Longrightarrow> rejectedByTimeout k m (fold timeoutFired xs s)"
  by (induction xs arbitrary: s) (simp_all add: rejectedByTimeout_timeoutFired)

lemma pendingCall_fires:
  "pendingCall k m s \<Longrightarrow> rejectedByTimeout k m (timeoutFired (deadline, k, m) s)"
  by (simp add: pendingCall_def rejectedByTimeout_def removed_def timeoutFired_def callsOf_invoke
      timeoutCall_def)

lemma pendingCall_other:
  "pendingCall k m s \<Longrightarrow> fst (snd x) \<noteq> k \<Longrightarrow> pendingCall k m (timeoutFired x s)"
  by (simp add: pendingCall_def timeoutFired_other)

lemma pendingCall_fold:
  assumes "pendingCall k m s"
    and "\<forall>x \<in> set xs. fst (snd x) = k \<longrightarrow> x = (deadline, k, m)"
  shows "if (deadline, k, m) \<in> set xs
         then rejectedByTimeout k m (fold timeoutFired xs s)
         else pendingCall k m (fold timeoutFired xs s)"
  using assms
proof (induction xs arbitrary: s)
  case Nil
  then show ?case by simp
next
  case (Cons x xs)
  show ?case
  proof (cases "fst (snd x) = k")
    case True
    with Cons.prems have x: "x = (deadline, k, m)" by simp
    have "rejectedByTimeout k m (timeoutFired x s)"
      unfolding x using Cons.prems(1) by (rule pendingCall_fires)
    then have "rejectedByTimeout k m (fold timeoutFired xs (timeoutFired x s))"
      by (rule rejectedByTimeout_fold)
    then show ?thesis
      by (simp add: x)
  next
    case False
    then have ne: "x \<noteq> (deadline, k, m)" by auto
    have "pendingCall k m (timeoutFired x s)"
      using Cons.prems(1) False by (rule pendingCall_other)
    then have "if (deadline, k, m) \<in> set xs
         then rejectedByTimeout k m (fold timeoutFired xs (timeoutFired x s))
         else pendingCall k m (fold timeoutFired xs (timeoutFired x s))"
      using Cons.prems(2) by (intro Cons.IH) simp_all
    then show ?thesis
      using ne by auto
  qed
qed

lemma waiting_pendingCall: "waiting k m deadline s \<Longrightarrow> pendingCall k m s"
  by (simp add: waiting_def pendingCall_def)

lemma waiting_elapse:
  assumes "waiting k m deadline s"
  shows "if deadline \<le> clock s + d then timedOut k m (elapse d s) else waiting k m deadline (elapse d s)"
proof -
  let ?t = "clock s + d"
  let ?s0 = "s\<lparr>clock := ?t, timers := filter (\<lambda>x. \<not> due ?t x) (timers s)\<rparr>"
  have p0: "pendingCall k m ?s0"
    using assms by (simp add: waiting_def pendingCall_def)
  have uniq: "\<forall>x \<in> set (filter (due ?t) (timers s)). fst (snd x) = k \<longrightarrow> x = (deadline, k, m)"
    using assms by (simp add: waiting_def)
  have mem: "((deadline, k, m) \<in> set (filter (due ?t) (timers s))) = (deadline \<le> ?t)"
    using assms by (auto simp: waiting_def due_def)
  have fold: "if deadline \<le> ?t
         then rejectedByTimeout k m (elapse d s)
         else pendingCall k m (elapse d s)"
    using pendingCall_fold [OF p0 uniq, unfolded mem] by (simp add: elapse_def Let_def)
  show ?thesis
  proof (cases "deadline \<le> ?t")
    case True
    with fold assms show ?thesis
      by (simp add: timedOut_def rejectedByTimeout_def waiting_def elapse_def Let_def)
  next
    case False
    with fold have "pendingCall k m (elapse d s)" by simp
    moreover have "timers (elapse d s) = filter (\<lambda>x. \<not> due ?t x) (timers s)"
      and "clock (elapse d s) = ?t" and "nextRequestId (elapse d s) = nextRequestId s"
      by (simp_all add: elapse_def Let_def)
    ultimately show ?thesis
      using False assms by (auto simp: waiting_def pendingCall_def due_def)
  qed
qed

lemma timedOut_elapse: "timedOut k m s \<Longrightarrow> timedOut k m (elapse d s)"
  using rejectedByTimeout_fold [of k m _ "filter (due (clock s + d)) (timers s)"]
  by (simp add: timedOut_def rejectedByTimeout_def elapse_def Let_def removed_def)

lemma sameCalls_waiting: "sameCalls s' s \<Longrightarrow> waiting k m deadline s' = waiting k m deadline s"
  by (simp add: sameCalls_def waiting_def callsOf_def)

lemma sameCalls_timedOut: "sameCalls s' s \<Longrightarrow> timedOut k m s' = timedOut k m s"
  by (simp add: sameCalls_def timedOut_def removed_def callsOf_def)

lemma waiting_sendRequest: "waiting k m deadline s \<Longrightarrow> waiting k m deadline (sendRequest m' p s)"
  by (auto simp: waiting_def sendRequest_def Let_def)

lemma timedOut_sendRequest: "timedOut k m s \<Longrightarrow> timedOut k m (sendRequest m' p s)"
  by (auto simp: timedOut_def removed_def sendRequest_def Let_def)

lemma waiting_sendSettled:
  "waiting k m deadline s \<Longrightarrow> rid \<noteq> k \<or> err = None \<Longrightarrow> waiting k m deadline (sendSettled rid err s)"
  by (auto simp: waiting_def sendSettled_def Let_def callsOf_invoke split: option.splits)

lemma timedOut_sendSettled:
  "timedOut k m s \<Longrightarrow> rid \<noteq> k \<or> err = None \<Longrightarrow> timedOut k m (sendSettled rid err s)"
  by (auto simp: timedOut_def removed_def sendSettled_def Let_def callsOf_invoke split: option.splits)

lemma handleResponse_other:
  assumes "good xs s j" and "i \<noteq> NumId k" and "i = NumId j \<or> i = StrId x \<or> i = OtherId"
  shows "messageResolvers (handleResponse i res err s) k = messageResolvers s k"
    and "messageRejecters (handleResponse i res err s) k = messageRejecters s k"
    and "pendingMethods (handleResponse i res err s) k = pendingMethods s k"
    and "callsOf k (handleResponse i res err s) = callsOf k s"
    and "nextRequestId (handleResponse i res err s) = nextRequestId s"
    and "clock (handleResponse i res err s) = clock s"
    and "timers (handleResponse i res err s) = timers s"
  using assms
  by (auto simp: good_def handleResponse_def Let_def callsOf_invoke split: option.splits)

lemma waiting_handleResponse:
  assumes "\<forall>j. good [] s j" and "waiting k m deadline s" and "i \<noteq> NumId k"
  shows "waiting k m deadline (handleResponse i res err s)"
proof -
  obtain j x where "i = NumId j \<or> i = StrId x \<or> i = OtherId"
    by (cases i) auto
  moreover have "good [] s j" for j
    using assms(1) by simp
  ultimately show ?thesis
    using assms(2,3) handleResponse_other [of "[]" s _ i k _ res err]
    by (auto simp: waiting_def)
qed

lemma timedOut_handleResponse:
  assumes "\<forall>j. good [] s j" and "timedOut k m s" and "i \<noteq> NumId k"
  shows "timedOut k m (handleResponse i res err s)"
proof -
  obtain j x where "i = NumId j \<or> i = StrId x \<or> i = OtherId"
    by (cases i) auto
  moreover have "good [] s j" for j
    using assms(1) by simp
  ultimately show ?thesis
    using assms(2,3) handleResponse_other [of "[]" s _ i k _ res err]
    by (auto simp: timedOut_def removed_def)
qed

lemma clock_step: "clock (step fs e s) = clock s + elapsed [e]"
proof (cases e)
  case (SendRequest m p)
  then show ?thesis by (simp add: sendRequest_def Let_def)
next
  case (SendSettled rid err)
  then show ?thesis by (simp add: sendSettled_def Let_def split: option.splits)
next
  case (Elapse d)
  then show ?thesis by (simp add: elapse_def Let_def)
next
  case (Message msg)
  have "clock (handleResponse i res err s) = clock s" for i res err
    by (simp add: handleResponse_def Let_def split: option.splits)
  moreover have "clock (handleRequest fs i m p s) = clock s" for i m p
    using sameCalls_handleRequest [of fs i m p s] by (simp add: sameCalls_def)
  moreover have "clock (handleNotification m u s) = clock s" for m u
    by (simp add: handleNotification_def)
  ultimately show ?thesis
    using Message by (simp add: handleMessage_def split: option.splits)
next
  case (ResolvePermission opt)
  then show ?thesis
    using sameCalls_resolvePermission [of opt s] by (simp add: sameCalls_def)
next
  case CancelPermission
  then show ?thesis
    using sameCalls_cancelPermission [of s] by (simp add: sameCalls_def)
qed

lemma waiting_step:
  assumes "\<forall>j. good [] s j" and "waiting k m deadline s" and "\<not> settles k e"
  shows "if deadline \<le> clock (step fs e s)
         then timedOut k m (step fs e s)
         else waiting k m deadline (step fs e s)"
proof -
  have ahead: "clock s < deadline"
    using assms(2) by (simp add: waiting_def)
  have keep: "waiting k m deadline (step fs e s)" if "\<not> (\<exists>d. e = Elapse d)"
  proof (cases e)
    case (SendRequest m' p)
    then show ?thesis using assms(2) by (simp add: waiting_sendRequest)
  next
    case (SendSettled rid err)
    then have "rid \<noteq> k \<or> err = None"
      using assms(3) by (cases err) auto
    with SendSettled show ?thesis using assms(2) by (simp add: waiting_sendSettled)
  next
    case (Elapse d)
    with that show ?thesis by simp
  next
    case (Message msg)
    show ?thesis
    proof (cases msg)
      case None
      with Message assms(2) show ?thesis by (simp add: handleMessage_def)
    next
      case (Some parsed)
      show ?thesis
      proof (cases "p_method parsed")
        case (Some mth)
        then show ?thesis
          using Message \<open>msg = Some parsed\<close> assms(2)
          by (auto simp: handleMessage_def sameCalls_waiting [OF sameCalls_handleRequest]
              sameCalls_waiting [OF sameCalls_handleNotification] split: option.splits)
      next
        case None
        then show ?thesis
          using Message \<open>msg = Some parsed\<close> assms
          by (auto simp: handleMessage_def waiting_handleResponse split: option.splits)
      qed
    qed
  next
    case (ResolvePermission opt)
    then show ?thesis
      using assms(2) by (simp add: sameCalls_waiting [OF sameCalls_resolvePermission])
  next
    case CancelPermission
    then show ?thesis
      using assms(2) by (simp add: sameCalls_waiting [OF sameCalls_cancelPermission])
  qed
  show ?thesis
  proof (cases e)
    case (Elapse d)
    then show ?thesis
      using waiting_elapse [OF assms(2), of d] clock_step [of fs e s] by simp
  qed (use keep ahead clock_step [of fs e s] in auto)
qed

lemma timedOut_step:
  assumes "\<forall>j. good [] s j" and "timedOut k m s" and "\<not> settles k e"
  shows "timedOut k m (step fs e s)"
proof (cases e)
  case (SendRequest m' p)
  then show ?thesis using assms(2) by (simp add: timedOut_sendRequest)
next
  case (SendSettled rid err)
  then have "rid \<noteq> k \<or> err = None"
    using assms(3) by (cases err) auto
  with SendSettled show ?thesis using assms(2) by (simp add: timedOut_sendSettled)
next
  case (Elapse d)
  then show ?thesis using assms(2) by (simp add: timedOut_elapse)
next
  case (Message msg)
  show ?thesis
  proof (cases msg)
    case None
    with Message assms(2) show ?thesis by (simp add: handleMessage_def)
  next
    case (Some parsed)
    show ?thesis
    proof (cases "p_method parsed")
      case (Some mth)
      then show ?thesis
        using Message \<open>msg = Some parsed\<close> assms(2)
        by (auto simp: handleMessage_def sameCalls_timedOut [OF sameCalls_handleRequest]
            sameCalls_timedOut [OF sameCalls_handleNotification] split: option.splits)
    next
      case None
      then show ?thesis
        using Message \<open>msg = Some parsed\<close> assms
        by (auto simp: handleMessage_def timedOut_handleResponse split: option.splits)
    qed
  qed
next
  case (ResolvePermission opt)
  then show ?thesis
    using assms(2) by (simp add: sameCalls_timedOut [OF sameCalls_resolvePermission])
next
  case CancelPermission
  then show ?thesis
    using assms(2) by (simp add: sameCalls_timedOut [OF sameCalls_cancelPermission])
qed

lemma good_after_step: "\<forall>j. good [] s j \<Longrightarrow> \<forall>j. good [] (step fs e s) j"
  by (simp add: good_step)

lemma elapsed_Cons: "elapsed (e # es) = elapsed [e] + elapsed es"
  by (cases e) simp_all

lemma timedOut_run:
  "\<forall>j. good [] s j \<Longrightarrow> timedOut k m s \<Longrightarrow> list_all (\<lambda>e. \<not> settles k e) es \<Longrightarrow>
   timedOut k m (run fs es s)"
proof (induction es arbitrary: s)
  case Nil
  then show ?case by simp
next
  case (Cons e es)
  have "timedOut k m (step fs e s)"
    using Cons.prems by (intro timedOut_step) simp_all
  then show ?case
    using Cons.prems good_after_step [of s fs e] by (simp add: Cons.IH)
qed

lemma waiting_run:
  "\<forall>j. good [] s j \<Longrightarrow> waiting k m deadline s \<Longrightarrow> list_all (\<lambda>e. \<not> settles k e) es \<Longrightarrow>
   (if deadline \<le> clock s + elapsed es
    then timedOut k m (run fs es s)
    else waiting k m deadline (run fs es s))"
proof (induction es arbitrary: s)
  case Nil
  then show ?case by (simp add: waiting_def)
next
  case (Cons e es)
  let ?s = "step fs e s"
  have g: "\<forall>j. good [] ?s j"
    using Cons.prems(1) by (rule good_after_step)
  have rest: "list_all (\<lambda>e. \<not> settles k e) es" and e: "\<not> settles k e"
    using Cons.prems(3) by simp_all
  have c: "clock ?s + elapsed es = clock s + elapsed (e # es)"
    using clock_step [of fs e s] elapsed_Cons [of e es] by simp
  have st: "if deadline \<le> clock ?s then timedOut k m ?s else waiting k m deadline ?s"
    using Cons.prems(1,2) e by (rule waiting_step)
  show ?case
  proof (cases "deadline \<le> clock ?s")
    case True
    with st have "timedOut k m (run fs es ?s)"
      using g rest by (simp add: timedOut_run)
    moreover have "deadline \<le> clock s + elapsed (e # es)"
      using True c by linarith
    ultimately show ?thesis by simp
  next
    case False
    with st have "waiting k m deadline ?s" by simp
    then have "if deadline \<le> clock ?s + elapsed es
        then timedOut k m (run fs es ?s)
        else waiting k m deadline (run fs es ?s)"
      using g rest by (intro Cons.IH)
    then show ?thesis
      unfolding c by simp
  qed
qed

lemma sendRequest_waiting:
  assumes "\<forall>j. good [] s j"
  shows "waiting (nextRequestId s) m (clock s + REQUEST_TIMEOUT) (sendRequest m p s)"
proof -
  have g: "good [] s (nextRequestId s)"
    using assms by simp
  then have "nextRequestId s \<notin> (\<lambda>x. fst (snd x)) ` set (timers s)"
    by (simp add: good_def timerIds_def)
  then have "\<forall>x \<in> set (timers s). fst (snd x) \<noteq> nextRequestId s"
    by (metis image_eqI)
  with g show ?thesis
    by (auto simp: good_def waiting_def sendRequest_def Let_def REQUEST_TIMEOUT_def)
qed

lemma response_resolves:
  "pendingCall j m' s \<Longrightarrow>
   callsOf j (handleMessage fs (resultFor j r) s)
     = [\<lparr>promise = j, site = ByResponse, outcome = Resolved (Some r)\<rparr>]
   \<and> removed j (handleMessage fs (resultFor j r) s)"
  by (simp add: pendingCall_def handleMessage_def resultFor_def handleResponse_def Let_def
      callsOf_invoke removed_def)

text \<open>
  C3. A request is sent in any state the bridge can be in. Whatever happens next, as long
  as no response with its id arrives and its send does not fail: before 60000
  milliseconds have passed the request is pending and has received no call; from then on
  its only call is reject with the timeout error, and its entries are gone. The callback
  of the timeout touches no entry and no call of another request, and a response that
  arrives for another pending request resolves that one with the response's result.
\<close>

theorem unanswered_request_times_out:
  assumes "list_all (\<lambda>e. \<not> settles k e) es"
    and "k = nextRequestId (run fs before initialBridge)"
  shows "(if 60000 \<le> elapsed es
          then callsOf k (run fs es (sendRequest m p (run fs before initialBridge)))
                 = [\<lparr>promise = k, site = ByTimeout, outcome = Rejected (''Request timeout: '' @ m)\<rparr>]
               \<and> removed k (run fs es (sendRequest m p (run fs before initialBridge)))
          else pendingCall k m (run fs es (sendRequest m p (run fs before initialBridge))))
       \<and> (\<forall>j. j \<noteq> k \<longrightarrow>
             messageResolvers (timeoutFired (deadline, k, m) s) j = messageResolvers s j
           \<and> messageRejecters (timeoutFired (deadline, k, m) s) j = messageRejecters s j
           \<and> pendingMethods (timeoutFired (deadline, k, m) s) j = pendingMethods s j
           \<and> callsOf j (timeoutFired (deadline, k, m) s) = callsOf j s)
       \<and> (\<forall>j. pendingCall j m' s \<longrightarrow>
             callsOf j (handleMessage fs (resultFor j r) s)
               = [\<lparr>promise = j, site = ByResponse, outcome = Resolved (Some r)\<rparr>]
           \<and> removed j (handleMessage fs (resultFor j r) s))"
proof (intro conjI allI impI)
  let ?s0 = "run fs before initialBridge"
  have g0: "\<forall>j. good [] ?s0 j"
    by (simp add: good_reachable)
  have g1: "\<forall>j. good [] (sendRequest m p ?s0) j"
    using g0 by (simp add: good_sendRequest)
  have w: "waiting k m (clock ?s0 + REQUEST_TIMEOUT) (sendRequest m p ?s0)"
    unfolding assms(2) using g0 by (rule sendRequest_waiting)
  have c: "clock (sendRequest m p ?s0) = clock ?s0"
    by (simp add: sendRequest_def Let_def)
  have "if clock ?s0 + REQUEST_TIMEOUT \<le> clock (sendRequest m p ?s0) + elapsed es
        then timedOut k m (run fs es (sendRequest m p ?s0))
        else waiting k m (clock ?s0 + REQUEST_TIMEOUT) (run fs es (sendRequest m p ?s0))"
    using g1 w assms(1) by (rule waiting_run)
  then show "if 60000 \<le> elapsed es
          then callsOf k (run fs es (sendRequest m p ?s0))
                 = [\<lparr>promise = k, site = ByTimeout, outcome = Rejected (''Request timeout: '' @ m)\<rparr>]
               \<and> removed k (run fs es (sendRequest m p ?s0))
          else pendingCall k m (run fs es (sendRequest m p ?s0))"
    by (auto simp: c REQUEST_TIMEOUT_def timedOut_def timeoutCall_def waiting_pendingCall
        split: if_splits)
next
  fix j
  assume "j \<noteq> k"
  then have "fst (snd (deadline, k, m)) \<noteq> j" by simp
  then show "messageResolvers (timeoutFired (deadline, k, m) s) j = messageResolvers s j"
    and "messageRejecters (timeoutFired (deadline, k, m) s) j = messageRejecters s j"
    and "pendingMethods (timeoutFired (deadline, k, m) s) j = pendingMethods s j"
    and "callsOf j (timeoutFired (deadline, k, m) s) = callsOf j s"
    by (simp_all add: timeoutFired_other)
next
  fix j
  assume "pendingCall j m' s"
  then show "callsOf j (handleMessage fs (resultFor j r) s)
               = [\<lparr>promise = j, site = ByResponse, outcome = Resolved (Some r)\<rparr>]"
    and "removed j (handleMessage fs (resultFor j r) s)"
    using response_resolves [of j m' s fs r] by simp_all
qed

text \<open>
  Request 0 (A) is sent first and never answered; request 1 (B) is sent a second later
  and answered a second after that. At the 60 second mark A has been rejected by its
  timeout, B has been resolved with its result, and B's own timer finds nothing to do.
\<close>

theorem unanswered_request_times_out_witness:
  "map (\<lambda>c. (promise c, site c, outcome c))
     (settled (run noFiles
        [Elapse 1000, SendRequest ''session/new'' None, Elapse 1000,
         Message (resultFor 1 ''{\"sessionId\":\"s1\"}''), Elapse 58000, Elapse 5000]
        (sendRequest ''session/prompt'' None (run noFiles [] initialBridge))))
   = [(1, ByResponse, Resolved (Some ''{\"sessionId\":\"s1\"}'')),
      (0, ByTimeout, Rejected ''Request timeout: session/prompt'')]"
  using unanswered_request_times_out [of 0
      "[Elapse 1000, SendRequest ''session/new'' None, Elapse 1000,
        Message (resultFor 1 ''{\"sessionId\":\"s1\"}''), Elapse 58000, Elapse 5000]"
      noFiles "[]" "''session/prompt''" None]
  by (simp add: initialBridge_def sendRequest_def handleMessage_def resultFor_def handleResponse_def
      elapse_def timeoutFired_def due_def invoke_def callsOf_def Let_def REQUEST_TIMEOUT_def)

subsection \<open>Responses to the requests of the agent\<close>

lemma handleRequest_sent:
  "sent (handleRequest fs i m ps s)
     = sent s @ (case immediateResponse fs i m ps of None \<Rightarrow> [] | Some f \<Rightarrow> [f])"
  by (simp add: handleRequest_def immediateResponse_def respond_def writeTextFile_def
      split: Params.splits sum.splits)

lemma handleRequest_resolver:
  "permissionResolver (handleRequest fs i m ps s)
     = (case immediateResponse fs i m ps of None \<Rightarrow> Some i | Some f \<Rightarrow> permissionResolver s)"
  by (simp add: handleRequest_def immediateResponse_def writeTextFile_def
      split: Params.splits sum.splits)

lemma immediateResponse_id:
  "immediateResponse fs i m ps = Some f \<Longrightarrow> isResponseTo j f = (i = j)"
  by (auto simp: immediateResponse_def split: if_splits Params.splits sum.splits)

lemma immediateResponse_None:
  "(immediateResponse fs i m ps = None)
     = (m = ''session/request_permission'' \<and> (case ps of PermissionParams r \<Rightarrow> True | _ \<Rightarrow> False))"
  by (auto simp: immediateResponse_def split: Params.splits)

lemma sendSettled_answers [simp]:
  "sent (sendSettled rid err s) = sent s"
  "permissionResolver (sendSettled rid err s) = permissionResolver s"
  by (simp_all add: sendSettled_def Let_def split: option.splits)

lemma timeoutFired_resolver [simp]:
  "permissionResolver (timeoutFired x s) = permissionResolver s"
  by (cases x) (simp add: timeoutFired_def)

lemma fold_timeoutFired_resolver [simp]:
  "permissionResolver (fold timeoutFired xs s) = permissionResolver s"
  by (induction xs arbitrary: s) simp_all

lemma elapse_answers [simp]:
  "sent (elapse d s) = sent s"
  "permissionResolver (elapse d s) = permissionResolver s"
  by (simp_all add: elapse_def Let_def)

lemma handleResponse_answers [simp]:
  "sent (handleResponse i res err s) = sent s"
  "permissionResolver (handleResponse i res err s) = permissionResolver s"
  by (simp_all add: handleResponse_def Let_def split: option.splits)

lemma handleNotification_answers [simp]:
  "sent (handleNotification m u s) = sent s"
  "permissionResolver (handleNotification m u s) = permissionResolver s"
  by (simp_all add: handleNotification_def)

lemma handleRequest_answers:
  assumes "immediateResponse fs j m ps \<noteq> None \<or> permissionResolver s = None"
  shows "length (responsesTo i (handleRequest fs j m ps s)) + awaited i (handleRequest fs j m ps s)
           = length (responsesTo i s) + awaited i s + (if j = i then 1 else 0)"
proof (cases "immediateResponse fs j m ps")
  case None
  with assms show ?thesis
    by (simp add: responsesTo_def awaited_def handleRequest_sent handleRequest_resolver)
next
  case (Some f)
  then show ?thesis
    using immediateResponse_id [OF Some, of i]
    by (simp add: responsesTo_def awaited_def handleRequest_sent handleRequest_resolver)
qed

lemma decide_answers:
  "length (responsesTo i (resolvePermission opt s)) + awaited i (resolvePermission opt s)
     = length (responsesTo i s) + awaited i s"
  "length (responsesTo i (cancelPermission s)) + awaited i (cancelPermission s)
     = length (responsesTo i s) + awaited i s"
  by (simp_all add: resolvePermission_def cancelPermission_def responsesTo_def awaited_def respond_def
      split: option.splits)

lemma step_answers:
  assumes "\<not> asksPermission e \<or> permissionResolver s = None"
  shows "length (responsesTo i (step fs e s)) + awaited i (step fs e s)
           = length (responsesTo i s) + awaited i s + (if isRequestFor i e then 1 else 0)"
proof (cases e)
  case (SendRequest m p)
  then show ?thesis
    by (simp add: sendRequest_def Let_def responsesTo_def awaited_def)
next
  case (SendSettled rid err)
  then show ?thesis by (simp add: responsesTo_def awaited_def)
next
  case (Elapse d)
  then show ?thesis by (simp add: responsesTo_def awaited_def)
next
  case (Message msg)
  show ?thesis
  proof (cases msg)
    case None
    with Message show ?thesis by (simp add: handleMessage_def)
  next
    case (Some parsed)
    show ?thesis
    proof (cases "p_id parsed")
      case None
      then show ?thesis
        using Message Some
        by (simp add: handleMessage_def responsesTo_def awaited_def split: option.splits)
    next
      case (Some j)
      note id = this
      show ?thesis
      proof (cases "p_method parsed")
        case None
        then show ?thesis
          using Message \<open>msg = Some parsed\<close> id
          by (simp add: handleMessage_def responsesTo_def awaited_def)
      next
        case (Some m)
        have "immediateResponse fs j m (p_params parsed) \<noteq> None \<or> permissionResolver s = None"
          using assms Message \<open>msg = Some parsed\<close> id Some
          by (auto simp: immediateResponse_None)
        then show ?thesis
          using Message \<open>msg = Some parsed\<close> id Some
          by (simp add: handleMessage_def handleRequest_answers)
      qed
    qed
  qed
next
  case (ResolvePermission opt)
  then show ?thesis by (simp add: decide_answers)
next
  case CancelPermission
  then show ?thesis by (simp add: decide_answers)
qed

lemma run_answers:
  "oneAtATime fs es s \<Longrightarrow>
   length (responsesTo i (run fs es s)) + awaited i (run fs es s)
     = length (responsesTo i s) + awaited i s + length (filter (isRequestFor i) es)"
proof (induction es arbitrary: s)
  case Nil
  then show ?case by simp
next
  case (Cons e es)
  then have "oneAtATime fs es (step fs e s)"
    and "\<not> asksPermission e \<or> permissionResolver s = None"
    by simp_all
  then show ?case
    using Cons.IH [of "step fs e s"] step_answers [of e s i fs] by simp
qed

text \<open>
  C2 (as amended). handleRequest answers a request at once with one frame that carries
  the request's id: the error \<open>-32601\<close> for a method it does not know, the error
  \<open>-32603\<close> when the handler throws, and the handler's result otherwise; only a
  permission request is held back, and the user's decision then sends its one response.
  In every run in which no permission request arrives while another awaits its
  decision, the responses sent with an id, and the request of that id still awaiting
  the user, are as many as the requests received with that id.
\<close>

theorem every_request_answered_once:
  "sent (handleRequest fs i m ps s)
     = sent s @ (case immediateResponse fs i m ps of None \<Rightarrow> [] | Some f \<Rightarrow> [f])
   \<and> permissionResolver (handleRequest fs i m ps s)
     = (case immediateResponse fs i m ps of None \<Rightarrow> Some i | Some f \<Rightarrow> permissionResolver s)
   \<and> (m \<noteq> ''fs/read_text_file'' \<and> m \<noteq> ''fs/write_text_file'' \<and> m \<noteq> ''session/request_permission''
        \<longrightarrow> immediateResponse fs i m ps = Some (ErrorFrame i (- 32601) (''Method not found: '' @ m)))
   \<and> (permissionResolver s = Some i \<longrightarrow>
         sent (resolvePermission opt s) = sent s @ [ResultFrame i (PermissionSelected opt)]
       \<and> permissionResolver (resolvePermission opt s) = None
       \<and> sent (cancelPermission s) = sent s @ [ResultFrame i PermissionCancelled]
       \<and> permissionResolver (cancelPermission s) = None)
   \<and> (permissionResolver s = None \<longrightarrow> resolvePermission opt s = s \<and> cancelPermission s = s)
   \<and> (oneAtATime fs es initialBridge \<longrightarrow>
         length (responsesTo i (run fs es initialBridge)) + awaited i (run fs es initialBridge)
           = length (filter (isRequestFor i) es))"
proof -
  have "oneAtATime fs es initialBridge \<Longrightarrow>
         length (responsesTo i (run fs es initialBridge)) + awaited i (run fs es initialBridge)
           = length (filter (isRequestFor i) es)"
    using run_answers [of fs es initialBridge i]
    by (simp add: responsesTo_def awaited_def initialBridge_def)
  moreover have "m \<noteq> ''fs/read_text_file'' \<and> m \<noteq> ''fs/write_text_file'' \<and> m \<noteq> ''session/request_permission''
        \<Longrightarrow> immediateResponse fs i m ps = Some (ErrorFrame i (- 32601) (''Method not found: '' @ m))"
    by (simp add: immediateResponse_def)
  moreover have "permissionResolver s = Some i \<Longrightarrow>
         sent (resolvePermission opt s) = sent s @ [ResultFrame i (PermissionSelected opt)]
       \<and> permissionResolver (resolvePermission opt s) = None
       \<and> sent (cancelPermission s) = sent s @ [ResultFrame i PermissionCancelled]
       \<and> permissionResolver (cancelPermission s) = None"
    by (simp add: resolvePermission_def cancelPermission_def respond_def)
  moreover have "permissionResolver s = None \<Longrightarrow> resolvePermission opt s = s \<and> cancelPermission s = s"
    by (simp add: resolvePermission_def cancelPermission_def)
  ultimately show ?thesis
    using handleRequest_sent [of fs i m ps s] handleRequest_resolver [of fs i m ps s]
    by blast
qed

text \<open>
  One request of each kind, and a permission request that the user grants: after the
  run each of the four ids has its one response.
\<close>

theorem every_request_answered_once_witness:
  "sent (run noFiles
      [Message (requestFrame (NumId 1) ''fs/read_text_file''
                  (ReadParams \<lparr>path = ''a.txt'', line = Undefined, limit = Undefined\<rparr>)),
       Message (requestFrame (StrId ''x'') ''terminal/create'' BadParams),
       Message (requestFrame (NumId 2) ''session/request_permission'' permissionParams),
       Message (requestFrame (NumId 3) ''fs/write_text_file'' BadParams),
       ResolvePermission ''allow'']
      initialBridge)
   = [ErrorFrame (NumId 1) (- 32603) ''not found'',
      ErrorFrame (StrId ''x'') (- 32601) ''Method not found: terminal/create'',
      ErrorFrame (NumId 3) (- 32603) typeErrorMessage,
      ResultFrame (NumId 2) (PermissionSelected ''allow'')]"
  using every_request_answered_once [of noFiles "NumId 2" "''session/request_permission''"
      permissionParams initialBridge "''allow''"
      "[Message (requestFrame (NumId 1) ''fs/read_text_file''
                  (ReadParams \<lparr>path = ''a.txt'', line = Undefined, limit = Undefined\<rparr>)),
        Message (requestFrame (StrId ''x'') ''terminal/create'' BadParams),
        Message (requestFrame (NumId 2) ''session/request_permission'' permissionParams),
        Message (requestFrame (NumId 3) ''fs/write_text_file'' BadParams),
        ResolvePermission ''allow'']"]
  by (simp add: initialBridge_def handleMessage_def requestFrame_def handleRequest_def respond_def
      readTextFile_def noFiles_def permissionParams_def resolvePermission_def)

text \<open>
  The claim as stated fails: a second permission request overwrites the continuation of
  the first. After the user has decided twice, the first request still has no response,
  and nothing is left that could send one.
\<close>

theorem second_permission_request_counterexample:
  "sent (run noFiles
      [Message (requestFrame (NumId 1) ''session/request_permission'' permissionParams),
       Message (requestFrame (NumId 2) ''session/request_permission'' permissionParams),
       ResolvePermission ''allow'', ResolvePermission ''allow'']
      initialBridge)
     = [ResultFrame (NumId 2) (PermissionSelected ''allow'')]
   \<and> permissionResolver (run noFiles
      [Message (requestFrame (NumId 1) ''session/request_permission'' permissionParams),
       Message (requestFrame (NumId 2) ''session/request_permission'' permissionParams),
       ResolvePermission ''allow'', ResolvePermission ''allow'']
      initialBridge) = None"
  by (simp add: initialBridge_def handleMessage_def requestFrame_def handleRequest_def respond_def
      permissionParams_def resolvePermission_def)

section \<open>Properties of session establishment\<close>

subsection \<open>The authentication error\<close>

lemma toLowerCase_phrase:
  "toLowerCase ''Authentication Required'' = ''authentication required''"
  by (simp add: toLowerCase_def toLowerChar_def)

lemma isAuthRequired_examples:
  "isAuthRequired ''Authentication Required''"
  "isAuthRequired ''Error -32000''"
  "\<not> isAuthRequired ''Please sign in''"
  by (simp_all add: isAuthRequired_def toLowerCase_def toLowerChar_def)

text \<open>
  C4. The agent answers \<^verbatim>\<open>session/new\<close> with the error code \<open>-32000\<close> and the message
  "Please sign in", after it advertised an authentication method. The bridge rejects
  with the message alone, the store's test finds neither of its two substrings in it,
  and createSession fails with that message: the user is not asked for a method and no
  \<^verbatim>\<open>authenticate\<close> request is sent.
\<close>

theorem error_code_alone_is_not_recognised:
  "rejectionMessage signInError = ''Please sign in''
   \<and> \<not> isAuthRequired (rejectionMessage signInError)
   \<and> fst (createSession (calmEnv\<lparr>e_session := failing (rejectionMessage signInError)\<rparr>)
            ''gemini'' ''/work'' initialStore) = Threw ''Please sign in''
   \<and> trace (snd (createSession (calmEnv\<lparr>e_session := failing (rejectionMessage signInError)\<rparr>)
            ''gemini'' ''/work'' initialStore))
     = [SpawnAgent ''gemini'', ListenStderr, Connect ''agent-1'', Request ''initialize'',
        Request ''session/new'', TrackEvent ''SessionCreated'' False]"
  by (simp add: rejectionMessage_def signInError_def isAuthRequired_def toLowerCase_def
      toLowerChar_def createSession_def createSessionEnd_def createSessionTry_def handshake_def
      authenticateAndRetry_def request_def concurrently_def logAction_def calmEnv_def quietly_def
      failing_def initialStore_def Let_def)

subsection \<open>What the concurrent callbacks leave alone\<close>

lemma handleSessionUpdate_frame [simp]:
  "currentSession (handleSessionUpdate uuid now u s) = currentSession s"
  "savedSessions (handleSessionUpdate uuid now u s) = savedSessions s"
  "connectionAborted (handleSessionUpdate uuid now u s) = connectionAborted s"
  "acpClient (handleSessionUpdate uuid now u s) = acpClient s"
  "authChoice (handleSessionUpdate uuid now u s) = authChoice s"
  "authMethodResolver (handleSessionUpdate uuid now u s) = authMethodResolver s"
  "cancelPending (handleSessionUpdate uuid now u s) = cancelPending s"
  "trace (handleSessionUpdate uuid now u s) = trace s"
  by (cases u; simp add: Let_def split: option.splits ContentBlock.splits)+


lemma sessionRequests_update [simp]:
  "sessionRequests (s\<lparr>currentSession := a\<rparr>) = sessionRequests s"
  "sessionRequests (s\<lparr>savedSessions := b\<rparr>) = sessionRequests s"
  "sessionRequests (s\<lparr>messages := c\<rparr>) = sessionRequests s"
  "sessionRequests (s\<lparr>toolCalls := d\<rparr>) = sessionRequests s"
  "sessionRequests (s\<lparr>isConnected := e\<rparr>) = sessionRequests s"
  "sessionRequests (s\<lparr>isLoading := e\<rparr>) = sessionRequests s"
  "sessionRequests (s\<lparr>isConnecting := e\<rparr>) = sessionRequests s"
  "sessionRequests (s\<lparr>error := f\<rparr>) = sessionRequests s"
  "sessionRequests (s\<lparr>pendingAuthMethods := g\<rparr>) = sessionRequests s"
  "sessionRequests (s\<lparr>pendingAuthAgentName := h\<rparr>) = sessionRequests s"
  "sessionRequests (s\<lparr>authMethodResolver := e\<rparr>) = sessionRequests s"
  "sessionRequests (s\<lparr>connectionAborted := e\<rparr>) = sessionRequests s"
  "sessionRequests (s\<lparr>startupPhase := h\<rparr>) = sessionRequests s"
  "sessionRequests (s\<lparr>acpClient := i\<rparr>) = sessionRequests s"
  "sessionRequests (s\<lparr>authChoice := j\<rparr>) = sessionRequests s"
  "sessionRequests (s\<lparr>cancelPending := e\<rparr>) = sessionRequests s"
  by (simp_all add: sessionRequests_def)

lemma concurrent_frame [simp]:
  "currentSession (concurrent c s) = currentSession s"
  "sessionRequests (concurrent c s) = sessionRequests s"
  "connectionAborted (concurrent c s) = (connectionAborted s \<or> c = CancelConnection)"
  by (cases c;
      simp add: sessionRequests_def cancelConnection_def cancelConnectionDone_def selectAuthMethod_def
        cancelAuthSelection_def logAction_def Let_def split: option.splits)+

lemma concurrently_frame [simp]:
  "currentSession (concurrently cs s) = currentSession s"
  "sessionRequests (concurrently cs s) = sessionRequests s"
  "connectionAborted (concurrently cs s) = (connectionAborted s \<or> CancelConnection \<in> set cs)"
  unfolding concurrently_def
  by (induction cs arbitrary: s; auto)+

subsection \<open>Cancellation\<close>

lemma abandoned_from:
  "abandoned s1 r \<Longrightarrow> sessionRequests s1 = sessionRequests s \<Longrightarrow>
   currentSession s1 = currentSession s \<Longrightarrow> abandoned s r"
  by (simp add: abandoned_def)

lemma logAction_frame [simp]:
  "currentSession (logAction a s) = currentSession s"
  "connectionAborted (logAction a s) = connectionAborted s"
  "acpClient (logAction a s) = acpClient s"
  "messages (logAction a s) = messages s"
  "toolCalls (logAction a s) = toolCalls s"
  by (simp_all add: logAction_def)





text \<open>
  The same agent answers the first \<^verbatim>\<open>session/new\<close> with a message that carries the
  phrase: the user is asked, picks the method, \<^verbatim>\<open>authenticate\<close> succeeds, and
  \<^verbatim>\<open>session/new\<close> is sent once more; the session is the one of the second answer.
\<close>

lemma authentication_retry_example:
  "fst (createSession (calmEnv\<lparr>e_session := failing ''Authentication required''\<rparr>)
          ''gemini'' ''/work'' initialStore) = Returned
   \<and> map_option sessionId
        (currentSession (snd (createSession (calmEnv\<lparr>e_session := failing ''Authentication required''\<rparr>)
          ''gemini'' ''/work'' initialStore))) = Some ''s2''
   \<and> trace (snd (createSession (calmEnv\<lparr>e_session := failing ''Authentication required''\<rparr>)
          ''gemini'' ''/work'' initialStore))
     = [SpawnAgent ''gemini'', ListenStderr, Connect ''agent-1'', Request ''initialize'',
        Request ''session/new'', PromptForAuthMethod, Request ''authenticate'',
        Request ''session/new'', SaveSessions, TrackEvent ''SessionCreated'' True]"
  by (simp add: isAuthRequired_def toLowerCase_def toLowerChar_def createSession_def
      createSessionEnd_def createSessionTry_def handshake_def authenticateAndRetry_def
      promptForAuthMethod_def selectAuthMethod_def saveSession_def sessionS2_def request_def
      concurrently_def logAction_def calmEnv_def quietly_def failing_def initialStore_def Let_def)

subsection \<open>Failure of an attempt\<close>

lemma concurrent_transcript:
  "\<not> isNotify c \<Longrightarrow> messages (concurrent c s) = messages s \<and> toolCalls (concurrent c s) = toolCalls s"
  by (cases c)
     (simp_all add: cancelConnection_def cancelConnectionDone_def selectAuthMethod_def
       cancelAuthSelection_def logAction_def Let_def split: option.splits)

lemma concurrently_transcript:
  "\<not> list_ex isNotify cs \<Longrightarrow>
   messages (concurrently cs s) = messages s \<and> toolCalls (concurrently cs s) = toolCalls s"
  unfolding concurrently_def
  by (induction cs arbitrary: s) (simp_all add: concurrent_transcript)

lemma withoutNotifications_parts:
  assumes "withoutNotifications env"
  shows "\<not> list_ex isNotify (during (e_spawn env))"
    and "\<not> list_ex isNotify (during (e_stderr env))"
    and "\<not> list_ex isNotify (during (e_connect env))"
    and "\<not> list_ex isNotify (during (e_initialize env))"
    and "\<not> list_ex isNotify (during (e_session env))"
    and "\<not> list_ex isNotify (e_authPrompt env)"
    and "\<not> list_ex isNotify (during (e_authenticate env))"
    and "\<not> list_ex isNotify (during (e_retry env))"
    and "\<not> list_ex isNotify (during (e_save env))"
    and "\<not> list_ex isNotify (during (e_teardown env))"
  using assms by (simp_all add: withoutNotifications_def list_ex_iff)

lemma sameSession_refl [simp]: "sameSession env s s"
  by (simp add: sameSession_def)

lemma sameSession_trans:
  "sameSession env s2 s1 \<Longrightarrow> sameSession env s1 s \<Longrightarrow> sameSession env s2 s"
  by (auto simp: sameSession_def)

lemma intact_from: "intact env s1 r \<Longrightarrow> sameSession env s1 s \<Longrightarrow> intact env s r"
  by (auto simp: intact_def sameSession_def)

lemma intact_stop: "sameSession env s1 s \<Longrightarrow> c \<noteq> Returned \<Longrightarrow> intact env s (c, s1)"
  by (auto simp: intact_def sameSession_def)

lemma sameSession_during:
  assumes "withoutNotifications env \<longrightarrow> \<not> list_ex isNotify cs"
  shows "sameSession env (concurrently cs (logAction a s)) s"
  using assms concurrently_transcript [of cs "logAction a s"]
  by (auto simp: sameSession_def)

lemma sameSession_request:
  assumes "withoutNotifications env \<longrightarrow> \<not> list_ex isNotify (during aw)"
  shows "sameSession env (snd (request m aw s)) s"
  using sameSession_during [OF assms, of "Request m" s]
  by (simp add: request_def split: option.splits)

lemma disconnectAndThrow_intact: "intact env s (disconnectAndThrow env msg s)"
proof -
  have "sameSession env (concurrently (during (e_teardown env)) (logAction a s)) s" for a
    by (rule sameSession_during) (simp add: withoutNotifications_parts)
  then show ?thesis
    by (simp add: disconnectAndThrow_def Let_def intact_stop split: option.splits sum.splits)
qed

lemma saveSession_intact: "intact env s (saveSession env name dir supports resp s)"
proof (cases "answer (e_save env)")
  case (Inl e)
  have "messages (concurrently (during (e_save env)) s1) = messages s1
      \<and> toolCalls (concurrently (during (e_save env)) s1) = toolCalls s1"
    if "withoutNotifications env" for s1
    using that by (intro concurrently_transcript) (simp add: withoutNotifications_parts)
  with Inl show ?thesis
    by (simp add: saveSession_def Let_def intact_def)
next
  case (Inr u)
  then show ?thesis
    by (simp add: saveSession_def Let_def intact_def)
qed

lemma promptForAuthMethod_same: "sameSession env (promptForAuthMethod env methods name s) s"
proof -
  let ?s0 = "s\<lparr>pendingAuthMethods := methods, pendingAuthAgentName := name,
               authMethodResolver := True, authChoice := None\<rparr>"
  have "sameSession env (concurrently (e_authPrompt env) (logAction PromptForAuthMethod ?s0)) ?s0"
    by (rule sameSession_during) (simp add: withoutNotifications_parts)
  moreover have "sameSession env ?s0 s"
    by (simp add: sameSession_def)
  ultimately show ?thesis
    unfolding promptForAuthMethod_def by (rule sameSession_trans)
qed

lemma request_cases:
  assumes "withoutNotifications env \<longrightarrow> \<not> list_ex isNotify (during aw)"
  obtains r s1 where "request m aw s = (r, s1)" and "sameSession env s1 s"
  using sameSession_request [OF assms, of m s] by (cases "request m aw s") auto

lemma retry_intact:
  assumes "sameSession env s2 s"
  shows "intact env s
     (case request ''session/new'' (e_retry env) s2 of
        (Inl e, s3) \<Rightarrow> (Threw e, s3)
      | (Inr resp, s3) \<Rightarrow> saveSession env name dir supports resp s3)"
proof -
  obtain r s3 where req: "request ''session/new'' (e_retry env) s2 = (r, s3)"
    and same: "sameSession env s3 s2"
    by (rule request_cases [of env "e_retry env"]) (simp add: withoutNotifications_parts)
  have same3: "sameSession env s3 s"
    using same assms by (rule sameSession_trans)
  show ?thesis
  proof (cases r)
    case (Inl e)
    with req same3 show ?thesis by (simp add: intact_stop)
  next
    case (Inr resp)
    with req show ?thesis
      using intact_from [OF saveSession_intact same3] by simp
  qed
qed

lemma authenticateAndRetry_intact:
  "intact env s (authenticateAndRetry env name dir supports methods errorMessage s)"
proof (cases "isAuthRequired errorMessage \<and> methods \<noteq> []")
  case False
  then show ?thesis
    by (auto simp: authenticateAndRetry_def intact_stop)
next
  case True
  let ?s1 = "promptForAuthMethod env methods name s"
  have same1: "sameSession env ?s1 s"
    by (rule promptForAuthMethod_same)
  show ?thesis
  proof (cases "authChoice ?s1")
    case None
    with True same1 show ?thesis
      by (simp add: authenticateAndRetry_def Let_def intact_stop)
  next
    case (Some selectedMethodId)
    note chosen = this
    show ?thesis
    proof (cases "noMethod selectedMethodId \<or> connectionAborted ?s1")
      case True
      then show ?thesis
        using \<open>isAuthRequired errorMessage \<and> methods \<noteq> []\<close> chosen
          intact_from [OF disconnectAndThrow_intact same1]
        by (simp add: authenticateAndRetry_def Let_def)
    next
      case False
      note proceed = this
      obtain r s2 where req: "request ''authenticate'' (e_authenticate env) ?s1 = (r, s2)"
        and same: "sameSession env s2 ?s1"
        by (rule request_cases [of env "e_authenticate env"]) (simp add: withoutNotifications_parts)
      have same2: "sameSession env s2 s"
        using same same1 by (rule sameSession_trans)
      show ?thesis
      proof (cases r)
        case (Inl e)
        then show ?thesis
          using True chosen proceed req same2
          by (simp add: authenticateAndRetry_def Let_def intact_stop)
      next
        case (Inr u)
        show ?thesis
        proof (cases "connectionAborted s2")
          case True
          then show ?thesis
            using \<open>isAuthRequired errorMessage \<and> methods \<noteq> []\<close> chosen proceed req Inr
              intact_from [OF disconnectAndThrow_intact same2]
            by (simp add: authenticateAndRetry_def Let_def)
        next
          case False
          then show ?thesis
            using \<open>isAuthRequired errorMessage \<and> methods \<noteq> []\<close> chosen proceed req Inr
              retry_intact [OF same2, of name dir supports]
            by (simp add: authenticateAndRetry_def Let_def)
        qed
      qed
    qed
  qed
qed

lemma handshake_intact: "intact env s (handshake env name dir s)"
proof -
  obtain r s1 where req: "request ''initialize'' (e_initialize env) s = (r, s1)"
    and same1: "sameSession env s1 s"
    by (rule request_cases [of env "e_initialize env"]) (simp add: withoutNotifications_parts)
  show ?thesis
  proof (cases r)
    case (Inl e)
    with req same1 show ?thesis
      by (simp add: handshake_def intact_stop)
  next
    case (Inr initResponse)
    note init = this
    show ?thesis
    proof (cases "connectionAborted s1")
      case True
      then show ?thesis
        using req init intact_from [OF disconnectAndThrow_intact same1]
        by (simp add: handshake_def Let_def)
    next
      case False
      obtain r2 s2 where req2: "request ''session/new'' (e_session env) s1 = (r2, s2)"
        and same: "sameSession env s2 s1"
        by (rule request_cases [of env "e_session env"]) (simp add: withoutNotifications_parts)
      have same2: "sameSession env s2 s"
        using same same1 by (rule sameSession_trans)
      show ?thesis
      proof (cases r2)
        case (Inl errorMessage)
        then show ?thesis
          using req init False req2 intact_from [OF authenticateAndRetry_intact same2]
          by (simp add: handshake_def Let_def)
      next
        case (Inr resp)
        then show ?thesis
          using req init False req2 intact_from [OF saveSession_intact same2]
          by (simp add: handshake_def Let_def)
      qed
    qed
  qed
qed

lemma createSessionTry_intact: "intact env s (createSessionTry env name dir s)"
proof -
  let ?s1 = "concurrently (during (e_spawn env)) (logAction (SpawnAgent name) s)"
  let ?s2 = "concurrently (during (e_stderr env)) (logAction ListenStderr ?s1)"
  have same1: "sameSession env ?s1 s"
    by (rule sameSession_during) (simp add: withoutNotifications_parts)
  have "sameSession env ?s2 ?s1"
    by (rule sameSession_during) (simp add: withoutNotifications_parts)
  then have same2: "sameSession env ?s2 s"
    using same1 by (rule sameSession_trans)
  show ?thesis
  proof (cases "answer (e_spawn env)")
    case (Inl e)
    then show ?thesis
      using same1 by (simp add: createSessionTry_def Let_def intact_stop)
  next
    case (Inr agentInstance)
    note spawned = this
    show ?thesis
    proof (cases "answer (e_stderr env)")
      case (Inl e)
      then show ?thesis
        using spawned same2 by (simp add: createSessionTry_def Let_def intact_stop)
    next
      case (Inr u)
      note listening = this
      show ?thesis
      proof (cases "connectionAborted ?s2")
        case True
        let ?s3 = "concurrently (during (e_teardown env))
                     (logAction (KillAgent (agent_id agentInstance)) ?s2)"
        have "sameSession env ?s3 ?s2"
          by (rule sameSession_during) (simp add: withoutNotifications_parts)
        then have "sameSession env ?s3 s"
          using same2 by (rule sameSession_trans)
        then show ?thesis
          using spawned listening True
          by (simp add: createSessionTry_def Let_def intact_stop split: sum.splits)
      next
        case False
        note notyet = this
        let ?s2' = "?s2\<lparr>startupPhase := ''initializing''\<rparr>"
        let ?s3 = "concurrently (during (e_connect env)) (logAction (Connect (agent_id agentInstance)) ?s2')"
        let ?s4 = "?s3\<lparr>acpClient := Some (agent_id agentInstance)\<rparr>"
        have "sameSession env ?s3 ?s2'"
          by (rule sameSession_during) (simp add: withoutNotifications_parts)
        moreover have "sameSession env ?s2' s"
          using same2 by (simp add: sameSession_def)
        ultimately have same3: "sameSession env ?s3 s"
          by (rule sameSession_trans)
        then have same4: "sameSession env ?s4 s"
          by (simp add: sameSession_def)
        show ?thesis
        proof (cases "answer (e_connect env)")
          case (Inl e)
          then show ?thesis
            using spawned listening notyet same3
            by (simp add: createSessionTry_def Let_def intact_stop)
        next
          case (Inr v)
          note connected = this
          show ?thesis
          proof (cases "connectionAborted ?s4")
            case True
            then have "createSessionTry env name dir s
                = disconnectAndThrow env ''Connection cancelled'' ?s4"
              using spawned listening notyet connected
              by (simp add: createSessionTry_def Let_def)
            then show ?thesis
              using intact_from [OF disconnectAndThrow_intact same4] by simp
          next
            case False
            have "sameSession env (?s4\<lparr>startupPhase := ''connecting''\<rparr>) s"
              using same4 by (simp add: sameSession_def)
            moreover have "createSessionTry env name dir s
                = handshake env name dir (?s4\<lparr>startupPhase := ''connecting''\<rparr>)"
              using spawned listening notyet connected False
              by (simp add: createSessionTry_def Let_def)
            ultimately show ?thesis
              using intact_from [OF handshake_intact] by simp
          qed
        qed
      qed
    qed
  qed
qed

lemma createSessionEnd_intact:
  "intact env s r \<Longrightarrow> intact env s (createSessionEnd r)"
  by (cases r; cases "fst r") (auto simp: createSessionEnd_def intact_def)

lemma createSession_intact: "intact env s (createSession env name dir s)"
proof -
  let ?s0 = "s\<lparr>isLoading := True, isConnecting := True, connectionAborted := False, error := None,
             startupPhase := ''starting''\<rparr>"
  have "sameSession env ?s0 s"
    by (simp add: sameSession_def)
  then have "intact env s (createSessionTry env name dir ?s0)"
    using intact_from [OF createSessionTry_intact] by simp
  then show ?thesis
    unfolding createSession_def by (rule createSessionEnd_intact)
qed

lemma resumed_intact: "intact env s (resumed env savedSession s)"
proof (cases "answer (e_save env)")
  case (Inl e)
  have "messages (concurrently (during (e_save env)) s1) = messages s1
      \<and> toolCalls (concurrently (during (e_save env)) s1) = toolCalls s1"
    if "withoutNotifications env" for s1
    using that by (intro concurrently_transcript) (simp add: withoutNotifications_parts)
  with Inl show ?thesis
    by (simp add: resumed_def Let_def intact_def)
next
  case (Inr u)
  then show ?thesis
    by (simp add: resumed_def Let_def intact_def)
qed

lemma reload_intact:
  assumes "sameSession env s2 s"
  shows "intact env s
     (case request ''session/load'' (e_retry env) s2 of
        (Inl e, s3) \<Rightarrow> (Threw e, s3)
      | (Inr resp, s3) \<Rightarrow> resumed env savedSession s3)"
proof -
  obtain r s3 where req: "request ''session/load'' (e_retry env) s2 = (r, s3)"
    and same: "sameSession env s3 s2"
    by (rule request_cases [of env "e_retry env"]) (simp add: withoutNotifications_parts)
  have same3: "sameSession env s3 s"
    using same assms by (rule sameSession_trans)
  show ?thesis
  proof (cases r)
    case (Inl e)
    with req same3 show ?thesis by (simp add: intact_stop)
  next
    case (Inr resp)
    with req show ?thesis
      using intact_from [OF resumed_intact same3] by simp
  qed
qed

lemma authenticateAndReload_intact:
  "intact env s (authenticateAndReload env savedSession methods errorMessage s)"
proof (cases "isAuthRequired errorMessage \<and> methods \<noteq> []")
  case False
  then show ?thesis
    by (auto simp: authenticateAndReload_def intact_stop)
next
  case True
  let ?s1 = "promptForAuthMethod env methods (agentName savedSession) s"
  have same1: "sameSession env ?s1 s"
    by (rule promptForAuthMethod_same)
  show ?thesis
  proof (cases "authChoice ?s1")
    case None
    with True same1 show ?thesis
      by (simp add: authenticateAndReload_def Let_def intact_stop)
  next
    case (Some selectedMethodId)
    note chosen = this
    show ?thesis
    proof (cases "noMethod selectedMethodId")
      case True
      then show ?thesis
        using \<open>isAuthRequired errorMessage \<and> methods \<noteq> []\<close> chosen
          intact_from [OF disconnectAndThrow_intact same1]
        by (simp add: authenticateAndReload_def Let_def)
    next
      case False
      note proceed = this
      obtain r s2 where req: "request ''authenticate'' (e_authenticate env) ?s1 = (r, s2)"
        and same: "sameSession env s2 ?s1"
        by (rule request_cases [of env "e_authenticate env"]) (simp add: withoutNotifications_parts)
      have same2: "sameSession env s2 s"
        using same same1 by (rule sameSession_trans)
      show ?thesis
      proof (cases r)
        case (Inl e)
        then show ?thesis
          using True chosen proceed req same2
          by (simp add: authenticateAndReload_def Let_def intact_stop)
      next
        case (Inr u)
        then show ?thesis
          using True chosen proceed req reload_intact [OF same2, of savedSession]
          by (simp add: authenticateAndReload_def Let_def)
      qed
    qed
  qed
qed

lemma resumeSessionTry_intact: "intactResume env s (resumeSessionTry env savedSession s)"
proof -
  let ?s1 = "concurrently (during (e_spawn env)) (logAction (SpawnAgent (agentName savedSession)) s)"
  have same1: "sameSession env ?s1 s"
    by (rule sameSession_during) (simp add: withoutNotifications_parts)
  have stop: "intactResume env s (c, s')"
    if "sameSession env s' s" and "c \<noteq> Returned" and "\<not> handshakeSucceeds env" for c s'
    using that by (auto simp: intactResume_def sameSession_def)
  show ?thesis
  proof (cases "answer (e_spawn env)")
    case (Inl e)
    then have "\<not> handshakeSucceeds env"
      by (simp add: handshakeSucceeds_def)
    with Inl same1 show ?thesis
      by (simp add: resumeSessionTry_def Let_def stop)
  next
    case (Inr agentInstance)
    note spawned = this
    let ?s2 = "concurrently (during (e_connect env)) (logAction (Connect (agent_id agentInstance)) ?s1)"
    let ?s2' = "?s2\<lparr>acpClient := Some (agent_id agentInstance)\<rparr>"
    have "sameSession env ?s2 ?s1"
      by (rule sameSession_during) (simp add: withoutNotifications_parts)
    then have same2: "sameSession env ?s2 s"
      using same1 by (rule sameSession_trans)
    then have same2': "sameSession env ?s2' s"
      by (simp add: sameSession_def)
    show ?thesis
    proof (cases "answer (e_connect env)")
      case (Inl e)
      then have "\<not> handshakeSucceeds env"
        by (simp add: handshakeSucceeds_def split: sum.splits)
      with Inl spawned same2 show ?thesis
        by (simp add: resumeSessionTry_def Let_def stop)
    next
      case (Inr u)
      note connected = this
      obtain r s3 where req: "request ''initialize'' (e_initialize env) ?s2' = (r, s3)"
        and same: "sameSession env s3 ?s2'"
        by (rule request_cases [of env "e_initialize env"]) (simp add: withoutNotifications_parts)
      have same3: "sameSession env s3 s"
        using same same2' by (rule sameSession_trans)
      have r: "r = answer (e_initialize env)"
        using req by (simp add: request_def)
      show ?thesis
      proof (cases r)
        case (Inl e)
        then have "\<not> handshakeSucceeds env"
          using r by (simp add: handshakeSucceeds_def split: sum.splits)
        with Inl spawned connected req same3 show ?thesis
          by (simp add: resumeSessionTry_def Let_def stop)
      next
        case (Inr initResponse)
        then have ok: "handshakeSucceeds env"
          using r spawned connected by (simp add: handshakeSucceeds_def)
        let ?s4 = "s3\<lparr>messages := [], toolCalls := Map.empty\<rparr>"
        let ?methods = "case init_authMethods initResponse of Some ms \<Rightarrow> ms | None \<Rightarrow> []"
        obtain r5 s5 where req5: "request ''session/load'' (e_session env) ?s4 = (r5, s5)"
          and same5: "sameSession env s5 ?s4"
          by (rule request_cases [of env "e_session env"]) (simp add: withoutNotifications_parts)
        have rest: "intact env ?s4
            (case r5 of
               Inr resp \<Rightarrow> resumed env savedSession s5
             | Inl errorMessage \<Rightarrow>
                 authenticateAndReload env savedSession ?methods errorMessage s5)"
          using intact_from [OF resumed_intact same5] intact_from [OF authenticateAndReload_intact same5]
          by (cases r5) simp_all
        have eq: "resumeSessionTry env savedSession s =
            (case r5 of
               Inr resp \<Rightarrow> resumed env savedSession s5
             | Inl errorMessage \<Rightarrow>
                 authenticateAndReload env savedSession ?methods errorMessage s5)"
          using spawned connected req Inr req5
          by (simp add: resumeSessionTry_def Let_def split: sum.splits)
        have cur: "currentSession ?s4 = currentSession s"
          using same3 by (simp add: sameSession_def)
        show ?thesis
          using rest ok cur unfolding eq by (auto simp: intact_def intactResume_def)
      qed
    qed
  qed
qed

lemma resumeSession_intact: "intactResume env s (resumeSession env savedSession s)"
proof -
  let ?s0 = "s\<lparr>isLoading := True, error := None\<rparr>"
  have "intactResume env ?s0 (resumeSessionTry env savedSession ?s0)"
    by (rule resumeSessionTry_intact)
  then have "intactResume env s (resumeSessionTry env savedSession ?s0)"
    by (auto simp: intactResume_def split: if_splits)
  then show ?thesis
    unfolding resumeSession_def
    by (cases "resumeSessionTry env savedSession ?s0"; cases "fst (resumeSessionTry env savedSession ?s0)")
       (auto simp: resumeSessionEnd_def intactResume_def logAction_def split: if_splits)
qed

subsection \<open>Cancellation during authentication\<close>

lemma givenUp_stop:
  "c \<noteq> Returned \<Longrightarrow> sessionRequests s1 = sessionRequests s \<Longrightarrow>
   currentSession s1 = currentSession s \<Longrightarrow> givenUp n s (c, s1)"
  by (simp add: givenUp_def)


lemma givenUp_from:
  "givenUp n s1 r \<Longrightarrow> length (sessionRequests s1) \<le> length (sessionRequests s) + k \<Longrightarrow>
   currentSession s1 = currentSession s \<Longrightarrow> givenUp (n + k) s r"
  by (simp add: givenUp_def)









subsection \<open>What a failed attempt leaves behind\<close>

text \<open>
  C6 (as amended). When createSession or resumeSession does not return, the current
  session is the one from before the call, unless the attempt had established the
  session and failed to save the list of sessions. When no notification arrived during
  the attempt, createSession leaves the transcript (the messages and the tool-call table)
  as it was; resumeSession leaves it as it was when the spawn, the bridge or the handshake
  failed, and leaves it empty otherwise, because it empties the transcript before it
  sends \<^verbatim>\<open>session/load\<close>.
\<close>

theorem failed_attempt_leaves_session:
  "(fst (createSession env name dir s) \<noteq> Returned \<and> \<not> isl (answer (e_save env))
      \<longrightarrow> currentSession (snd (createSession env name dir s)) = currentSession s)
   \<and> (fst (createSession env name dir s) \<noteq> Returned \<and> withoutNotifications env
      \<longrightarrow> messages (snd (createSession env name dir s)) = messages s
        \<and> toolCalls (snd (createSession env name dir s)) = toolCalls s)
   \<and> (fst (resumeSession env savedSession s) \<noteq> Returned \<and> \<not> isl (answer (e_save env))
      \<longrightarrow> currentSession (snd (resumeSession env savedSession s)) = currentSession s)
   \<and> (fst (resumeSession env savedSession s) \<noteq> Returned \<and> withoutNotifications env
      \<longrightarrow> (if handshakeSucceeds env
           then messages (snd (resumeSession env savedSession s)) = []
              \<and> toolCalls (snd (resumeSession env savedSession s)) = Map.empty
           else messages (snd (resumeSession env savedSession s)) = messages s
              \<and> toolCalls (snd (resumeSession env savedSession s)) = toolCalls s))"
  using createSession_intact [of env s name dir] resumeSession_intact [of env s savedSession]
  by (auto simp: intact_def intactResume_def split: if_splits)

text \<open>
  \<^verbatim>\<open>session/new\<close> fails after a conversation: the session and the transcript of the
  conversation are still there.
\<close>

theorem failed_attempt_leaves_session_witness:
  "fst (createSession (calmEnv\<lparr>e_session := failing ''agent crashed''\<rparr>) ''gemini'' ''/work'' chatting)
     = Threw ''agent crashed''
   \<and> currentSession (snd (createSession (calmEnv\<lparr>e_session := failing ''agent crashed''\<rparr>)
        ''gemini'' ''/work'' chatting)) = Some earlierSession
   \<and> map content (messages (snd (createSession (calmEnv\<lparr>e_session := failing ''agent crashed''\<rparr>)
        ''gemini'' ''/work'' chatting))) = [''hello'', ''hi there'']
   \<and> currentSession (snd (resumeSession (calmEnv\<lparr>e_session := failing ''agent crashed''\<rparr>)
        earlierSession chatting)) = Some earlierSession"
  using failed_attempt_leaves_session
    [of "calmEnv\<lparr>e_session := failing ''agent crashed''\<rparr>" "''gemini''" "''/work''" chatting
      earlierSession]
  by (simp add: createSession_def createSessionEnd_def createSessionTry_def handshake_def
      authenticateAndRetry_def request_def concurrently_def logAction_def calmEnv_def quietly_def
      failing_def chatting_def initialStore_def isAuthRequired_def toLowerCase_def toLowerChar_def
      lastMessage_def setLast_def Let_def
      resumeSession_def resumeSessionEnd_def resumeSessionTry_def authenticateAndReload_def)

text \<open>
  The claim as stated fails: resumeSession has emptied the transcript when
  \<^verbatim>\<open>session/load\<close> fails.
\<close>

theorem failed_resume_clears_transcript_counterexample:
  "fst (resumeSession (calmEnv\<lparr>e_session := failing ''Session not found''\<rparr>) earlierSession chatting)
     = Threw ''Session not found''
   \<and> map content (messages chatting) = [''hello'', ''hi there'']
   \<and> messages (snd (resumeSession (calmEnv\<lparr>e_session := failing ''Session not found''\<rparr>)
        earlierSession chatting)) = []"
  by (simp add: resumeSession_def resumeSessionEnd_def resumeSessionTry_def authenticateAndReload_def
      request_def concurrently_def logAction_def calmEnv_def quietly_def failing_def chatting_def
      initialStore_def isAuthRequired_def toLowerCase_def toLowerChar_def lastMessage_def
      setLast_def Let_def)

end
